theory Spec2Isabelle
  imports Main
begin

section \<open>Python strings\<close>

text \<open>
  A Python \<^verbatim>\<open>str\<close> is a sequence of Unicode code points, so a character is modelled by
  its code point and a string by the list of its code points. ASCII literals are written
  through \<open>ascii\<close>; other text (the Thai column names) is given by code points.
\<close>

type_synonym pychar = nat
type_synonym pystr = "pychar list"

definition ascii :: "string \<Rightarrow> pystr" where
  "ascii s = map of_char s"

text \<open>
  \<^verbatim>\<open>str.isspace\<close>, \<^verbatim>\<open>str.strip()\<close>, \<^verbatim>\<open>str.split()\<close> and the class \<^verbatim>\<open>\s\<close> of \<^verbatim>\<open>re\<close> (on
  \<^verbatim>\<open>str\<close> patterns) all use the same set of whitespace code points.
\<close>

definition whitespace_points :: "pychar list" where
  "whitespace_points =
     [0x09, 0x0A, 0x0B, 0x0C, 0x0D, 0x1C, 0x1D, 0x1E, 0x1F, 0x20, 0x85, 0xA0, 0x1680,
      0x2000, 0x2001, 0x2002, 0x2003, 0x2004, 0x2005, 0x2006, 0x2007, 0x2008, 0x2009,
      0x200A, 0x2028, 0x2029, 0x202F, 0x205F, 0x3000]"

definition isspace :: "pychar \<Rightarrow> bool" where
  "isspace c = (c \<in> set whitespace_points)"

text \<open>
  The class \<^verbatim>\<open>\d\<close> of \<^verbatim>\<open>re\<close> on \<^verbatim>\<open>str\<close> patterns is \<^verbatim>\<open>str.isdecimal\<close>: the Unicode category
  Nd, which comes in runs of ten code points (the digits 0 to 9 of one script). The list
  gives the zero of every run (Unicode 14.0, as in CPython 3.11).
\<close>

definition decimal_zero_points :: "pychar list" where
  "decimal_zero_points =
     [0x30, 0x660, 0x6F0, 0x7C0, 0x966, 0x9E6, 0xA66, 0xAE6, 0xB66, 0xBE6, 0xC66, 0xCE6,
      0xD66, 0xDE6, 0xE50, 0xED0, 0xF20, 0x1040, 0x1090, 0x17E0, 0x1810, 0x1946, 0x19D0,
      0x1A80, 0x1A90, 0x1B50, 0x1BB0, 0x1C40, 0x1C50, 0xA620, 0xA8D0, 0xA900, 0xA9D0,
      0xA9F0, 0xAA50, 0xABF0, 0xFF10, 0x104A0, 0x10D30, 0x11066, 0x110F0, 0x11136,
      0x111D0, 0x112F0, 0x11450, 0x114D0, 0x11650, 0x116C0, 0x11730, 0x118E0, 0x11950,
      0x11C50, 0x11D50, 0x11DA0, 0x16A60, 0x16AC0, 0x16B50, 0x1D7CE, 0x1D7D8, 0x1D7E2,
      0x1D7EC, 0x1D7F6, 0x1E140, 0x1E2F0, 0x1E950, 0x1FBF0]"

definition isdecimal :: "pychar \<Rightarrow> bool" where
  "isdecimal c = list_ex (\<lambda>z. z \<le> c \<and> c < z + 10) decimal_zero_points"

text \<open>\<^verbatim>\<open>s.strip()\<close>: whitespace removed at both ends.\<close>

definition py_lstrip :: "pystr \<Rightarrow> pystr" where
  "py_lstrip s = dropWhile isspace s"

definition py_rstrip :: "pystr \<Rightarrow> pystr" where
  "py_rstrip s = rev (dropWhile isspace (rev s))"

definition py_strip :: "pystr \<Rightarrow> pystr" where
  "py_strip s = py_rstrip (py_lstrip s)"

text \<open>
  \<^verbatim>\<open>s.split()\<close> with no separator: the maximal runs of non-whitespace characters, in
  order; leading and trailing whitespace gives no empty token.
\<close>

function py_split :: "pystr \<Rightarrow> pystr list" where
  "py_split s =
     (case dropWhile isspace s of
        [] \<Rightarrow> []
      | c # cs \<Rightarrow> takeWhile (\<lambda>x. \<not> isspace x) (c # cs)
                 # py_split (dropWhile (\<lambda>x. \<not> isspace x) (c # cs)))"
  by pat_completeness auto
termination
proof (relation "measure length")
  show "wf (measure length)" by simp
next
  fix s :: pystr and c cs
  assume eq: "dropWhile isspace s = c # cs"
  have "\<not> isspace c"
    using hd_dropWhile [of isspace s] eq by simp
  then have "length (dropWhile (\<lambda>x. \<not> isspace x) (c # cs)) \<le> length cs"
    by (simp add: length_dropWhile_le)
  moreover have "length (c # cs) \<le> length s"
    using length_dropWhile_le [of isspace s] eq by simp
  ultimately show "(dropWhile (\<lambda>x. \<not> isspace x) (c # cs), s) \<in> measure length"
    by simp
qed

declare py_split.simps [simp del]

text \<open>\<^verbatim>\<open>sep.join(xs)\<close>.\<close>

fun py_join :: "pystr \<Rightarrow> pystr list \<Rightarrow> pystr" where
  "py_join sep [] = []"
| "py_join sep [x] = x"
| "py_join sep (x # y # ys) = x @ sep @ py_join sep (y # ys)"

text \<open>\<^verbatim>\<open>s.replace(old, new)\<close> for a one-character \<^verbatim>\<open>old\<close> and \<^verbatim>\<open>new\<close>.\<close>

definition py_replace_char :: "pychar \<Rightarrow> pychar \<Rightarrow> pystr \<Rightarrow> pystr" where
  "py_replace_char old new s = map (\<lambda>c. if c = old then new else c) s"

text \<open>\<^verbatim>\<open>str(n)\<close> for an integer: its decimal digits, with a minus sign when negative.\<close>

fun decimal_digits :: "nat \<Rightarrow> pystr" where
  "decimal_digits n =
     (if n < 10 then [0x30 + n] else decimal_digits (n div 10) @ [0x30 + n mod 10])"

declare decimal_digits.simps [simp del]

definition py_str_int :: "int \<Rightarrow> pystr" where
  "py_str_int i = (if i < 0 then 0x2D # decimal_digits (nat (- i)) else decimal_digits (nat i))"


section \<open>Regular expressions\<close>

text \<open>
  The three patterns of the program are built from single characters, the classes
  \<^verbatim>\<open>\d\<close>, \<^verbatim>\<open>\s\<close>, \<^verbatim>\<open>.\<close> and \<^verbatim>\<open>[^:\s]\<close>, greedy repetition of such a class, sequence,
  alternation, greedy option, capturing groups and the anchors \<^verbatim>\<open>^\<close> and \<^verbatim>\<open>$\<close> (no flags).
  The matcher is the backtracking one of \<^verbatim>\<open>re\<close>: it returns every way to match in the order
  in which backtracking tries them, so the head of the list is the match \<^verbatim>\<open>re\<close> reports.
\<close>

datatype item = Ch pychar | Cat_d | Cat_s

datatype atom = One item | Dot | NoneOf "item list"

datatype re =
    Atom atom
  | Seq re re
  | Alt re re
  | Opt re
  | Star atom
  | Plus atom
  | Rep nat atom
  | Group nat re
  | Bol
  | Eol

fun item_ok :: "item \<Rightarrow> pychar \<Rightarrow> bool" where
  "item_ok (Ch k) c = (c = k)"
| "item_ok Cat_d c = isdecimal c"
| "item_ok Cat_s c = isspace c"

fun atom_ok :: "atom \<Rightarrow> pychar \<Rightarrow> bool" where
  "atom_ok (One i) c = item_ok i c"
| "atom_ok Dot c = (c \<noteq> 0x0A)"
| "atom_ok (NoneOf is) c = (\<not> list_ex (\<lambda>i. item_ok i c) is)"

text \<open>
  A matcher state: the position in the subject, the text from there on, and the groups
  captured so far (the latest capture of a group first).
\<close>

record mstate =
  pos :: nat
  rest :: pystr
  groups :: "(nat \<times> pystr) list"

definition advance :: "nat \<Rightarrow> mstate \<Rightarrow> mstate" where
  "advance k st = st\<lparr>pos := pos st + k, rest := drop k (rest st)\<rparr>"

definition run :: "atom \<Rightarrow> pystr \<Rightarrow> nat" where
  "run a s = length (takeWhile (atom_ok a) s)"

primrec rmatch :: "re \<Rightarrow> mstate \<Rightarrow> mstate list" where
  "rmatch (Atom a) st =
     (case rest st of [] \<Rightarrow> [] | c # cs \<Rightarrow> if atom_ok a c then [advance 1 st] else [])"
| "rmatch (Seq r1 r2) st = concat (map (rmatch r2) (rmatch r1 st))"
| "rmatch (Alt r1 r2) st = rmatch r1 st @ rmatch r2 st"
| "rmatch (Opt r) st = rmatch r st @ [st]"
| "rmatch (Star a) st = map (\<lambda>k. advance k st) (rev [0..<Suc (run a (rest st))])"
| "rmatch (Plus a) st = map (\<lambda>k. advance k st) (rev [1..<Suc (run a (rest st))])"
| "rmatch (Rep n a) st = (if n \<le> run a (take n (rest st)) then [advance n st] else [])"
| "rmatch (Group i r) st =
     map (\<lambda>st'. st'\<lparr>groups := (i, take (pos st' - pos st) (rest st)) # groups st'\<rparr>)
       (rmatch r st)"
| "rmatch Bol st = (if pos st = 0 then [st] else [])"
| "rmatch Eol st = (if rest st = [] \<or> rest st = [0x0A] then [st] else [])"

text \<open>
  A match object: \<^verbatim>\<open>m.group(0)\<close> and the captured groups. \<^verbatim>\<open>re.search\<close> tries the start
  positions from left to right and reports the first match of the first position that has
  one.
\<close>

record match =
  group0 :: pystr
  captures :: "(nat \<times> pystr) list"

definition match_at :: "re \<Rightarrow> nat \<Rightarrow> pystr \<Rightarrow> match option" where
  "match_at r p s =
     (case rmatch r \<lparr>pos = p, rest = s, groups = []\<rparr> of
        [] \<Rightarrow> None
      | st # sts \<Rightarrow> Some \<lparr>group0 = take (pos st - p) s, captures = groups st\<rparr>)"

fun search_from :: "re \<Rightarrow> nat \<Rightarrow> pystr \<Rightarrow> match option" where
  "search_from r p [] = match_at r p []"
| "search_from r p (c # cs) =
     (case match_at r p (c # cs) of
        Some m \<Rightarrow> Some m
      | None \<Rightarrow> search_from r (Suc p) cs)"

definition re_search :: "re \<Rightarrow> pystr \<Rightarrow> match option" where
  "re_search r s = search_from r 0 s"

definition group :: "match \<Rightarrow> nat \<Rightarrow> pystr option" where
  "group m i = map_of (captures m) i"


section \<open>Cells and sheets\<close>

text \<open>
  A cell of the sheet read by \<^verbatim>\<open>pd.read_excel(..., header=None)\<close>: \<^verbatim>\<open>None\<close>, the float NaN of
  an empty cell, the missing date \<^verbatim>\<open>NaT\<close>, a \<^verbatim>\<open>str\<close>, a date-like value (its \<^verbatim>\<open>year\<close> and what
  \<^verbatim>\<open>str\<close> gives for it), or any other value (a number, a boolean), given by what \<^verbatim>\<open>str\<close>
  gives for it. NaN also stands for the missing value of the derived columns.
\<close>

datatype cell = PyNone | NaN | NaT | Str pystr | Date int pystr | Other pystr

datatype error = IndexError | ValueError | KeyError pystr | AttributeError

fun py_str :: "cell \<Rightarrow> pystr" where
  "py_str PyNone = ascii ''None''"
| "py_str NaN = ascii ''nan''"
| "py_str NaT = ascii ''NaT''"
| "py_str (Str s) = s"
| "py_str (Date y s) = s"
| "py_str (Other s) = s"

fun isna :: "cell \<Rightarrow> bool" where
  "isna PyNone = True"
| "isna NaN = True"
| "isna NaT = True"
| "isna _ = False"

text \<open>
  \<^verbatim>\<open>int(v.year)\<close> when \<^verbatim>\<open>hasattr(v, "year")\<close>: a date has a year; \<^verbatim>\<open>NaT.year\<close> is NaN, on which
  \<^verbatim>\<open>int\<close> raises; no other cell has the attribute.
\<close>

fun year_attr :: "cell \<Rightarrow> (error + int) option" where
  "year_attr (Date y s) = Some (Inr y)"
| "year_attr NaT = Some (Inl ValueError)"
| "year_attr _ = None"

text \<open>The pattern \<^verbatim>\<open>(19|20)\d{2}\<close>.\<close>

definition year_pat :: re where
  "year_pat =
     Seq (Group 1 (Alt (Seq (Atom (One (Ch 0x31))) (Atom (One (Ch 0x39))))
                       (Seq (Atom (One (Ch 0x32))) (Atom (One (Ch 0x30))))))
         (Rep 2 (One Cat_d))"

definition extract_year_from_value :: "cell \<Rightarrow> pystr" where
  "extract_year_from_value v =
     (if v = PyNone \<or> v = NaN then []
      else
        case (case year_attr v of
                Some (Inr y) \<Rightarrow> if 1900 \<le> y \<and> y \<le> 2100 then Some (py_str_int y) else None
              | Some (Inl e) \<Rightarrow> None
              | None \<Rightarrow> None) of
          Some r \<Rightarrow> r
        | None \<Rightarrow>
            (case re_search year_pat (py_str v) of Some m \<Rightarrow> group0 m | None \<Rightarrow> []))"

text \<open>
  The raw sheet is the list of its rows. A data frame is rectangular: \<^verbatim>\<open>read_excel\<close> fills a
  short row with NaN up to the width of the sheet, which \<open>cell_at\<close> does here.
\<close>

type_synonym sheet = "cell list list"

definition shape0 :: "sheet \<Rightarrow> nat" where
  "shape0 raw = length raw"

definition shape1 :: "sheet \<Rightarrow> nat" where
  "shape1 raw = foldr (\<lambda>r n. max (length r) n) raw 0"

definition cell_at :: "cell list \<Rightarrow> nat \<Rightarrow> cell" where
  "cell_at row c = (if c < length row then row ! c else NaN)"

definition iloc :: "sheet \<Rightarrow> nat \<Rightarrow> nat \<Rightarrow> error + cell" where
  "iloc raw r c =
     (if r < shape0 raw \<and> c < shape1 raw then Inr (cell_at (raw ! r) c) else Inl IndexError)"

text \<open>
  The two loops of \<^verbatim>\<open>extract_year\<close>; \<open>Inr None\<close> is a loop that ended without returning.
\<close>

fun scan_cols :: "sheet \<Rightarrow> nat \<Rightarrow> nat list \<Rightarrow> error + pystr option" where
  "scan_cols raw r [] = Inr None"
| "scan_cols raw r (c # cs) =
     (case iloc raw r c of
        Inl e \<Rightarrow> Inl e
      | Inr v \<Rightarrow>
          (let y = extract_year_from_value v
           in if y \<noteq> [] then Inr (Some y) else scan_cols raw r cs))"

fun scan_rows :: "sheet \<Rightarrow> nat list \<Rightarrow> nat list \<Rightarrow> error + pystr option" where
  "scan_rows raw [] cs = Inr None"
| "scan_rows raw (r # rs) cs =
     (case scan_cols raw r cs of
        Inl e \<Rightarrow> Inl e
      | Inr (Some y) \<Rightarrow> Inr (Some y)
      | Inr None \<Rightarrow> scan_rows raw rs cs)"

definition extract_year :: "sheet \<Rightarrow> error + pystr" where
  "extract_year raw =
     (let y = (case iloc raw 5 0 of Inl e \<Rightarrow> [] | Inr v \<Rightarrow> extract_year_from_value v)
      in if y \<noteq> [] then Inr y
         else
           (let rmax = min 25 (shape0 raw);
                cmax = min 6 (shape1 raw)
            in case scan_rows raw [0..<rmax] [0..<cmax] of
                 Inl e \<Rightarrow> Inl e
               | Inr (Some y) \<Rightarrow> Inr y
               | Inr None \<Rightarrow> Inr []))"


section \<open>Data frames\<close>

text \<open>
  A data frame is the ordered list of its columns, each a name and a series of cells of
  the same length. A series of pandas strings is a list of optional strings, \<open>None\<close> being
  the missing value.
\<close>

type_synonym series = "cell list"
type_synonym frame = "(pystr \<times> series) list"

definition columns :: "frame \<Rightarrow> pystr list" where
  "columns df = map fst df"

definition nrows :: "frame \<Rightarrow> nat" where
  "nrows df = (case df of [] \<Rightarrow> 0 | kc # _ \<Rightarrow> length (snd kc))"

text \<open>\<^verbatim>\<open>df[name]\<close>: every column of that name.\<close>

definition getitem :: "frame \<Rightarrow> pystr \<Rightarrow> series list" where
  "getitem df name = map snd (filter (\<lambda>kc. fst kc = name) df)"

text \<open>
  \<^verbatim>\<open>df[name]\<close> as a series, where the program has made sure that the column is there
  (it has checked the name, or has just assigned the column).
\<close>

definition the_column :: "frame \<Rightarrow> pystr \<Rightarrow> series" where
  "the_column df name = (case getitem df name of [] \<Rightarrow> [] | c # _ \<Rightarrow> c)"

text \<open>\<^verbatim>\<open>df[name] = vs\<close>: overwrites the columns of that name, or appends a new column.\<close>

definition setitem :: "pystr \<Rightarrow> series \<Rightarrow> frame \<Rightarrow> frame" where
  "setitem name vs df =
     (if name \<in> set (columns df)
      then map (\<lambda>kc. if fst kc = name then (fst kc, vs) else kc) df
      else df @ [(name, vs)])"

text \<open>\<^verbatim>\<open>df.rename(columns=m)\<close>: a name that is no key of \<^verbatim>\<open>m\<close> stays.\<close>

definition rename :: "(pystr \<times> pystr) list \<Rightarrow> frame \<Rightarrow> frame" where
  "rename m df =
     map (\<lambda>kc. (case map_of m (fst kc) of Some k' \<Rightarrow> k' | None \<Rightarrow> fst kc, snd kc)) df"

text \<open>\<^verbatim>\<open>xs[keep_row]\<close> for a boolean series \<^verbatim>\<open>keep_row\<close>, on a series and on the rows of a frame.\<close>

definition boolean_index :: "'a list \<Rightarrow> bool list \<Rightarrow> 'a list" where
  "boolean_index xs keep_row = map fst (filter snd (zip xs keep_row))"

definition select_rows :: "bool list \<Rightarrow> frame \<Rightarrow> frame" where
  "select_rows keep_row df = map (\<lambda>kc. (fst kc, boolean_index (snd kc) keep_row)) df"

fun notna_mask :: "series list \<Rightarrow> bool list" where
  "notna_mask [] = []"
| "notna_mask [c] = map (\<lambda>v. \<not> isna v) c"
| "notna_mask (c # cs) = map (\<lambda>vb. \<not> isna (fst vb) \<and> snd vb) (zip c (notna_mask cs))"

text \<open>\<^verbatim>\<open>df.dropna(subset=[name]).reset_index(drop=True)\<close>.\<close>

definition dropna :: "pystr \<Rightarrow> frame \<Rightarrow> frame" where
  "dropna name df = select_rows (notna_mask (getitem df name)) df"

text \<open>\<^verbatim>\<open>df.drop(columns=[name])\<close>.\<close>

definition drop_columns :: "pystr \<Rightarrow> frame \<Rightarrow> frame" where
  "drop_columns name df = filter (\<lambda>kc. fst kc \<noteq> name) df"

text \<open>\<^verbatim>\<open>df[names]\<close> for a list of names.\<close>

definition project :: "pystr list \<Rightarrow> frame \<Rightarrow> frame" where
  "project names df = concat (map (\<lambda>n. filter (\<lambda>kc. fst kc = n) df) names)"

text \<open>
  \<^verbatim>\<open>df.drop(index=labels, errors="ignore").reset_index(drop=True)\<close> on the rows of a frame
  whose index is \<^verbatim>\<open>0..n-1\<close>: a label that is no row is ignored.
\<close>

definition drop_labels :: "nat list \<Rightarrow> 'a list \<Rightarrow> 'a list" where
  "drop_labels labels xs =
     map snd (filter (\<lambda>ix. fst ix \<notin> set labels) (zip [0..<length xs] xs))"

text \<open>Elementwise operations on series.\<close>

definition astype_string :: "cell \<Rightarrow> pystr option" where
  "astype_string v = (if isna v then None else Some (py_str v))"

definition of_string :: "pystr option \<Rightarrow> cell" where
  "of_string x = (case x of None \<Rightarrow> NaN | Some s \<Rightarrow> Str s)"

text \<open>One column of \<^verbatim>\<open>s.str.extract(pat)\<close>: group \<open>i\<close> of \<^verbatim>\<open>re.search(pat, x)\<close>.\<close>

definition str_extract :: "re \<Rightarrow> nat \<Rightarrow> pystr option \<Rightarrow> pystr option" where
  "str_extract pat i x =
     (case x of
        None \<Rightarrow> None
      | Some t \<Rightarrow> (case re_search pat t of None \<Rightarrow> None | Some m \<Rightarrow> group m i))"

text \<open>\<^verbatim>\<open>xs.where(mask)\<close>: missing where the mask is false.\<close>

definition series_where :: "'a option list \<Rightarrow> bool list \<Rightarrow> 'a option list" where
  "series_where xs cond = map (\<lambda>xb. if snd xb then fst xb else None) (zip xs cond)"

text \<open>\<^verbatim>\<open>xs.ffill()\<close>: a missing value takes the last value seen before it, if any.\<close>

fun ffill_from :: "'a option \<Rightarrow> 'a option list \<Rightarrow> 'a option list" where
  "ffill_from seen [] = []"
| "ffill_from seen (None # xs) = seen # ffill_from seen xs"
| "ffill_from seen (Some v # xs) = Some v # ffill_from (Some v) xs"

definition ffill :: "'a option list \<Rightarrow> 'a option list" where
  "ffill xs = ffill_from None xs"

text \<open>\<^verbatim>\<open>.str[0]\<close> on a series of lists: missing when the list is empty.\<close>

definition str_get0 :: "pystr list option \<Rightarrow> pystr option" where
  "str_get0 x = (case x of None \<Rightarrow> None | Some [] \<Rightarrow> None | Some (t # ts) \<Rightarrow> Some t)"


section \<open>The conversion\<close>

definition RENAME_MAP :: "(pystr \<times> pystr) list" where
  "RENAME_MAP =
     [([0xE23, 0xE2B, 0xE31, 0xE2A, 0xE1A, 0xE31, 0xE0D, 0xE0A, 0xE35, 0xE07, 0xE1A,
       0xE1B, 0xE23, 0xE30, 0xE21, 0xE32, 0xE13],
       ascii ''Budget_Account''),
      ([0xE07, 0xE1A, 0xE1B, 0xE23, 0xE30, 0xE21, 0xE32, 0xE13],
       ascii ''Budget''),
      ([0x50, 0x52, 0x2F, 0xE01, 0xE31, 0xE19, 0xE07, 0xE1A],
       ascii ''PR/Reserved_Budget''),
      ([0xE15, 0xE31, 0xE49, 0xE07, 0xE2B, 0xE19, 0xE35, 0xE49, 0x2F, 0xE08, 0xE48,
       0xE32, 0xE22],
       ascii ''Accured/Paid''),
      ([0xE04, 0xE07, 0xE40, 0xE2B, 0xE25, 0xE37, 0xE2D],
       ascii ''Remaining_Balance''),
      ([0xE43, 0xE0A, 0xE49, 0xE44, 0xE1B, 0x25],
       ascii ''Spent%'')]"

text \<open>
  The two patterns of group rows:
  \<^verbatim>\<open>^((?:G\d{3})(?:_[^:\s]+)?)\s*:\s*(.+)$\<close> when the suffix is kept and
  \<^verbatim>\<open>^(G\d{3})(?:_[^:\s]+)?\s*:\s*(.+)$\<close> when it is not.
\<close>

definition code_re :: re where
  "code_re = Seq (Atom (One (Ch 0x47))) (Rep 3 (One Cat_d))"

definition suffix_re :: re where
  "suffix_re = Opt (Seq (Atom (One (Ch 0x5F))) (Plus (NoneOf [Ch 0x3A, Cat_s])))"

definition tail_re :: re where
  "tail_re =
     Seq (Star (One Cat_s))
       (Seq (Atom (One (Ch 0x3A))) (Seq (Star (One Cat_s)) (Seq (Group 2 (Plus Dot)) Eol)))"

definition group_pat :: "bool \<Rightarrow> re" where
  "group_pat keep_suffix_in_budget_code =
     (if keep_suffix_in_budget_code
      then Seq Bol (Seq (Group 1 (Seq code_re suffix_re)) tail_re)
      else Seq Bol (Seq (Group 1 code_re) (Seq suffix_re tail_re)))"

definition desired :: "pystr list" where
  "desired =
     [ascii ''Year'', ascii ''Budget_Code'', ascii ''Budget_Type'', ascii ''Expense_Code'',
      ascii ''Expense_Detail'', ascii ''Budget'', ascii ''PR/Reserved_Budget'',
      ascii ''Accured/Paid'', ascii ''Remaining_Balance'', ascii ''Spent%'']"

text \<open>
  Lines 72 to 80 of \<^verbatim>\<open>convert_budget\<close>: the rows 0 to 8 go, then the row at position 1 of
  what is left; the first remaining row becomes the header (each cell through \<^verbatim>\<open>str\<close>,
  stripped, and stripped again), and \<^verbatim>\<open>df.iloc[0]\<close> raises when no row is left.
\<close>

definition header_frame :: "sheet \<Rightarrow> error + frame" where
  "header_frame raw =
     (let df = drop_labels [0..<9] raw;
          df = drop_labels [1] df
      in case df of
           [] \<Rightarrow> Inl IndexError
         | hdr # body \<Rightarrow>
             Inr (map (\<lambda>j. (py_strip (py_strip (py_str (cell_at hdr j))),
                            map (\<lambda>r. cell_at r j) body))
                    [0..<shape1 raw]))"

text \<open>The normalized text of an account cell (lines 92 to 96).\<close>

definition normalize_account :: "cell \<Rightarrow> pystr option" where
  "normalize_account v =
     map_option py_strip (map_option (py_replace_char 0xA0 0x20) (astype_string v))"

text \<open>
  The two new columns of the split (lines 121 to 123), on one stripped account:
  \<^verbatim>\<open>ba.str.split().str[0]\<close> and \<^verbatim>\<open>ba.str.split().str[1:].str.join(" ")\<close>.
\<close>

definition expense_code :: "pystr option \<Rightarrow> cell" where
  "expense_code x = of_string (str_get0 (map_option py_split x))"

definition expense_detail :: "pystr option \<Rightarrow> cell" where
  "expense_detail x =
     of_string (map_option (py_join [0x20]) (map_option (drop 1) (map_option py_split x)))"

text \<open>
  Lines 105 to 132: the group rows are found, their code and type are filled forward, the
  group rows and the rows without an account are dropped, the account is split and the
  columns are put in order.
\<close>

definition classify_and_split :: "bool \<Rightarrow> frame \<Rightarrow> frame" where
  "classify_and_split keep_suffix_in_budget_code df =
     (let s = map normalize_account (the_column df (ascii ''Budget_Account''));
          pat = group_pat keep_suffix_in_budget_code;
          m0 = map (str_extract pat 1) s;
          m1 = map (str_extract pat 2) s;
          is_group = map (\<lambda>x. x \<noteq> None) m0;
          df = setitem (ascii ''Budget_Code'') (map of_string (ffill (series_where m0 is_group))) df;
          df = setitem (ascii ''Budget_Type'') (map of_string (ffill (series_where m1 is_group))) df;
          df = setitem (ascii ''Budget_Account'')
                 (map of_string (series_where s (map Not is_group))) df;
          df = dropna (ascii ''Budget_Account'') df;
          ba = map (\<lambda>v. map_option py_strip (astype_string v))
                 (the_column df (ascii ''Budget_Account''));
          df = setitem (ascii ''Expense_Code'') (map expense_code ba) df;
          df = setitem (ascii ''Expense_Detail'') (map expense_detail ba) df;
          df = drop_columns (ascii ''Budget_Account'') df
      in project (filter (\<lambda>c. c \<in> set (columns df)) desired) df)"

text \<open>
  \<^verbatim>\<open>convert_budget\<close>, from the sheet that \<^verbatim>\<open>read_excel_any\<close> has read. Lines 68 to 86 make the
  frame with its header, the \<^verbatim>\<open>Year\<close> column and the canonical names; line 88 requires the
  account column. With two columns named \<^verbatim>\<open>Budget_Account\<close>, \<^verbatim>\<open>df["Budget_Account"]\<close> is a
  frame, which has no \<^verbatim>\<open>.str\<close>.
\<close>

definition missing_column_message :: pystr where
  "missing_column_message =
     ascii ''Could not find '' @ [0x27] @ fst (hd RENAME_MAP) @ [0x27]
       @ ascii '' / Budget_Account column after header set.''"

definition prepare :: "sheet \<Rightarrow> error + frame" where
  "prepare raw =
     (case extract_year raw of
        Inl e \<Rightarrow> Inl e
      | Inr year \<Rightarrow>
          (case header_frame raw of
             Inl e \<Rightarrow> Inl e
           | Inr df \<Rightarrow>
               (let df = setitem (ascii ''Year'') (replicate (nrows df) (Str year)) df
                in Inr (rename RENAME_MAP df))))"

definition convert_budget :: "sheet \<Rightarrow> bool \<Rightarrow> error + frame" where
  "convert_budget raw keep_suffix_in_budget_code =
     (case prepare raw of
        Inl e \<Rightarrow> Inl e
      | Inr df \<Rightarrow>
          if ascii ''Budget_Account'' \<notin> set (columns df)
          then Inl (KeyError missing_column_message)
          else
            (case getitem df (ascii ''Budget_Account'') of
               [acct] \<Rightarrow> Inr (classify_and_split keep_suffix_in_budget_code df)
             | _ \<Rightarrow> Inl AttributeError))"

text \<open>The rows of the result, by their derived columns.\<close>

record out_row =
  Budget_Code :: cell
  Budget_Type :: cell
  Expense_Code :: cell
  Expense_Detail :: cell

definition derived_rows :: "frame \<Rightarrow> out_row list" where
  "derived_rows df =
     map (\<lambda>(a, b, c, d).
            \<lparr>Budget_Code = a, Budget_Type = b, Expense_Code = c, Expense_Detail = d\<rparr>)
       (zip (the_column df (ascii ''Budget_Code''))
          (zip (the_column df (ascii ''Budget_Type''))
             (zip (the_column df (ascii ''Expense_Code''))
                (the_column df (ascii ''Expense_Detail'')))))"


section \<open>Notions of the specification\<close>

text \<open>
  A year token: four characters that match \<^verbatim>\<open>(19|20)\d\d\<close> as a whole.
\<close>

fun year_token :: "pystr \<Rightarrow> bool" where
  "year_token [p, q, a, b] =
     (((p = 0x31 \<and> q = 0x39) \<or> (p = 0x32 \<and> q = 0x30)) \<and> isdecimal a \<and> isdecimal b)"
| "year_token _ = False"

text \<open>
  What the designated cell (row 5, column 0) yields, nothing when the sheet has no such
  cell; the cells of the first 25 rows and first 6 columns in row-major order; the first
  year that a list of cells yields.
\<close>

definition probe :: "sheet \<Rightarrow> pystr" where
  "probe raw =
     (if 5 < length raw \<and> 0 < shape1 raw then extract_year_from_value (cell_at (raw ! 5) 0)
      else [])"

definition region :: "sheet \<Rightarrow> cell list" where
  "region raw =
     concat (map (\<lambda>row. map (\<lambda>c. cell_at row c) [0..<min 6 (shape1 raw)]) (take 25 raw))"

definition first_year :: "cell list \<Rightarrow> pystr" where
  "first_year cells =
     (case find (\<lambda>y. y \<noteq> []) (map extract_year_from_value cells) of
        Some y \<Rightarrow> y
      | None \<Rightarrow> [])"

text \<open>
  Whether a row is a group row: \<^verbatim>\<open>is_group = m[0].notna()\<close>, on one account cell.
\<close>

definition is_group :: "bool \<Rightarrow> cell \<Rightarrow> bool" where
  "is_group keep_suffix_in_budget_code v =
     (str_extract (group_pat keep_suffix_in_budget_code) 1 (normalize_account v) \<noteq> None)"

text \<open>
  The group pattern in words: a code, an optional suffix (an underscore and one or more
  characters that are neither a colon nor whitespace), whitespace, a colon, whitespace,
  and a text of one or more characters other than a line break, up to the end. The code
  is one character allowed by \<open>letter\<close> and three digits: the letter \<^verbatim>\<open>G\<close> in the patterns
  of the program, any of \<^verbatim>\<open>A\<close> to \<^verbatim>\<open>Z\<close> in the pattern as the specification words it.
\<close>

definition suffix_text :: "pystr \<Rightarrow> bool" where
  "suffix_text suf =
     (case suf of
        [] \<Rightarrow> False
      | u # t \<Rightarrow> u = 0x5F \<and> t \<noteq> [] \<and> list_all (\<lambda>c. c \<noteq> 0x3A \<and> \<not> isspace c) t)"

definition pattern_text :: "(pychar \<Rightarrow> bool) \<Rightarrow> pystr \<Rightarrow> bool" where
  "pattern_text letter s =
     (\<exists>l d1 d2 d3 suf w1 w2 txt.
        s = [l, d1, d2, d3] @ suf @ w1 @ [0x3A] @ w2 @ txt \<and>
        letter l \<and> isdecimal d1 \<and> isdecimal d2 \<and> isdecimal d3 \<and>
        (suf = [] \<or> suffix_text suf) \<and>
        list_all isspace w1 \<and> list_all isspace w2 \<and>
        txt \<noteq> [] \<and> list_all (\<lambda>c. c \<noteq> 0x0A) txt)"

definition marker_text :: "pystr \<Rightarrow> bool" where
  "marker_text s = pattern_text (\<lambda>c. c = 0x47) s"

definition spec_marker_text :: "pystr \<Rightarrow> bool" where
  "spec_marker_text s = pattern_text (\<lambda>c. 0x41 \<le> c \<and> c \<le> 0x5A) s"

text \<open>
  The field splitter in the words of the specification, for an account that is already
  trimmed: \<^verbatim>\<open>Expense_Code\<close> is the text before the first run of whitespace, and
  \<^verbatim>\<open>Expense_Detail\<close> is the tokens after it, joined by single spaces.
\<close>

definition spec_expense_code :: "pystr \<Rightarrow> cell" where
  "spec_expense_code ba = Str (takeWhile (\<lambda>c. \<not> isspace c) ba)"

definition spec_expense_detail :: "pystr \<Rightarrow> cell" where
  "spec_expense_detail ba = Str (py_join [0x20] (py_split (dropWhile (\<lambda>c. \<not> isspace c) ba)))"

text \<open>
  The classifier and the splitter read as one pass over the account column that carries
  the code and the type of the last group row: a group row sets them and gives no row, a
  row without an account gives no row, and any other row takes them as they stand.
\<close>

fun rows_from :: "bool \<Rightarrow> pystr option \<Rightarrow> pystr option \<Rightarrow> series \<Rightarrow> out_row list" where
  "rows_from keep bc bt [] = []"
| "rows_from keep bc bt (v # vs) =
     (let s = normalize_account v;
          m0 = str_extract (group_pat keep) 1 s;
          m1 = str_extract (group_pat keep) 2 s
      in if m0 \<noteq> None then rows_from keep m0 (if m1 \<noteq> None then m1 else bt) vs
         else if s = None then rows_from keep bc bt vs
         else \<lparr>Budget_Code = of_string bc, Budget_Type = of_string bt,
                Expense_Code = expense_code (map_option py_strip s),
                Expense_Detail = expense_detail (map_option py_strip s)\<rparr>
              # rows_from keep bc bt vs)"

text \<open>The code and the type that the pass carries after a list of rows.\<close>

fun group_after ::
  "bool \<Rightarrow> pystr option \<times> pystr option \<Rightarrow> series \<Rightarrow> pystr option \<times> pystr option" where
  "group_after keep g [] = g"
| "group_after keep g (v # vs) =
     (let s = normalize_account v;
          m0 = str_extract (group_pat keep) 1 s;
          m1 = str_extract (group_pat keep) 2 s
      in group_after keep
           (if m0 \<noteq> None then (m0, if m1 \<noteq> None then m1 else snd g) else g) vs)"

text \<open>
  What a pattern matches, without the order of backtracking: \<open>steps r p u v\<close> says that
  \<open>r\<close>, at position \<open>p\<close> with the text \<open>u\<close> ahead, can match up to where \<open>v\<close> is ahead.
  \<open>captured r\<close> are the groups that every match of \<open>r\<close> sets.
\<close>

primrec steps :: "re \<Rightarrow> nat \<Rightarrow> pystr \<Rightarrow> pystr \<Rightarrow> bool" where
  "steps (Atom a) p u v = (\<exists>c. u = c # v \<and> atom_ok a c)"
| "steps (Seq r1 r2) p u v =
     (\<exists>w m. u = w @ m \<and> steps r1 p u m \<and> steps r2 (p + length w) m v)"
| "steps (Alt r1 r2) p u v = (steps r1 p u v \<or> steps r2 p u v)"
| "steps (Opt r) p u v = (steps r p u v \<or> v = u)"
| "steps (Star a) p u v = (\<exists>w. u = w @ v \<and> list_all (atom_ok a) w)"
| "steps (Plus a) p u v = (\<exists>w. u = w @ v \<and> w \<noteq> [] \<and> list_all (atom_ok a) w)"
| "steps (Rep n a) p u v = (\<exists>w. u = w @ v \<and> length w = n \<and> list_all (atom_ok a) w)"
| "steps (Group i r) p u v = steps r p u v"
| "steps Bol p u v = (p = 0 \<and> v = u)"
| "steps Eol p u v = (v = u \<and> (u = [] \<or> u = [0x0A]))"

primrec captured :: "re \<Rightarrow> nat set" where
  "captured (Atom a) = {}"
| "captured (Seq r1 r2) = captured r1 \<union> captured r2"
| "captured (Alt r1 r2) = captured r1 \<inter> captured r2"
| "captured (Opt r) = {}"
| "captured (Star a) = {}"
| "captured (Plus a) = {}"
| "captured (Rep n a) = {}"
| "captured (Group i r) = insert i (captured r)"
| "captured Bol = {}"
| "captured Eol = {}"

text \<open>
  A sheet in the layout that the conversion expects, for the examples: nine leading rows
  with the year in row 5, the header row with two Thai column names, the stray row, and
  then one row for each account cell.
\<close>

definition example_sheet :: "cell list \<Rightarrow> sheet" where
  "example_sheet accounts =
     [[NaN, NaN], [NaN, NaN], [NaN, NaN], [NaN, NaN], [NaN, NaN], [Str (ascii ''FY 2025''), NaN],
      [NaN, NaN], [NaN, NaN], [NaN, NaN],
      [Str (fst (RENAME_MAP ! 0)), Str (fst (RENAME_MAP ! 1))],
      [NaN, NaN]]
     @ map (\<lambda>a. [a, Other (ascii ''100'')]) accounts"



section \<open>Facts about strings and numbers\<close>

lemma decimal_digits_small: "n < 10 \<Longrightarrow> decimal_digits n = [0x30 + n]"
  by (subst decimal_digits.simps) simp

lemma decimal_digits_step:
  "10 \<le> n \<Longrightarrow> decimal_digits n = decimal_digits (n div 10) @ [0x30 + n mod 10]"
  by (subst decimal_digits.simps) simp

lemma decimal_digits_4:
  assumes "1000 \<le> n" "n < 10000"
  shows "decimal_digits n =
           [0x30 + n div 1000, 0x30 + n div 100 mod 10, 0x30 + n div 10 mod 10, 0x30 + n mod 10]"
proof -
  have e1: "n div 10 div 10 = n div 100" and e2: "n div 100 div 10 = n div 1000"
    by (simp_all add: div_mult2_eq [symmetric])
  have r: "10 \<le> n" "10 \<le> n div 10" "10 \<le> n div 100" "n div 1000 < 10"
    using assms by simp_all
  have "decimal_digits n = decimal_digits (n div 10) @ [0x30 + n mod 10]"
    using r(1) by (rule decimal_digits_step)
  also have "decimal_digits (n div 10) = decimal_digits (n div 100) @ [0x30 + n div 10 mod 10]"
    using decimal_digits_step [OF r(2)] by (simp only: e1)
  also have "decimal_digits (n div 100) = decimal_digits (n div 1000) @ [0x30 + n div 100 mod 10]"
    using decimal_digits_step [OF r(3)] by (simp only: e2)
  also have "decimal_digits (n div 1000) = [0x30 + n div 1000]"
    using r(4) by (rule decimal_digits_small)
  finally show ?thesis by simp
qed

lemma isdecimal_ascii: "k < 10 \<Longrightarrow> isdecimal (0x30 + k)"
  by (simp add: isdecimal_def decimal_zero_points_def)

lemma year_digits:
  fixes n :: nat
  assumes "1900 \<le> n" "n \<le> 2099"
  shows "(n div 1000 = 1 \<and> n div 100 mod 10 = 9) \<or> (n div 1000 = 2 \<and> n div 100 mod 10 = 0)"
proof (cases "n < 2000")
  case True
  have "n div 1000 = 1" using assms True by (intro div_nat_eqI) simp_all
  moreover have "n div 100 = 19" using assms True by (intro div_nat_eqI) simp_all
  ultimately show ?thesis by simp
next
  case False
  have "n div 1000 = 2" using assms False by (intro div_nat_eqI) simp_all
  moreover have "n div 100 = 20" using assms False by (intro div_nat_eqI) simp_all
  ultimately show ?thesis by simp
qed

lemma py_str_int_year:
  assumes "1900 \<le> y" "y \<le> 2099"
  shows "year_token (py_str_int y)"
proof -
  define n where "n = nat y"
  have n: "1900 \<le> n" "n \<le> 2099" using assms by (simp_all add: n_def)
  have dd: "decimal_digits n =
           [0x30 + n div 1000, 0x30 + n div 100 mod 10, 0x30 + n div 10 mod 10, 0x30 + n mod 10]"
    using n by (intro decimal_digits_4) simp_all
  have "year_token (decimal_digits n)"
    using year_digits [OF n] unfolding dd by (auto simp: isdecimal_ascii)
  then show ?thesis using assms by (simp add: py_str_int_def n_def)
qed

lemma py_str_int_2100: "py_str_int 2100 = ascii ''2100''"
proof -
  have "decimal_digits 2100 = [0x32, 0x31, 0x30, 0x30]"
    by (subst decimal_digits_4) simp_all
  then show ?thesis by (simp add: py_str_int_def ascii_def)
qed


section \<open>The year extractor\<close>

lemma run_Cons: "run a (c # cs) = (if atom_ok a c then Suc (run a cs) else 0)"
  by (simp add: run_def)

lemma run_Nil: "run a [] = 0"
  by (simp add: run_def)

text \<open>The year pattern matches exactly at a year token, and then in one way only.\<close>

lemma rmatch_year_pat:
  "rmatch year_pat st =
     (case rest st of
        p # q # a # b # cs \<Rightarrow>
          if year_token [p, q, a, b]
          then [(advance 4 st)\<lparr>groups := (1, [p, q]) # groups st\<rparr>]
          else []
      | _ \<Rightarrow> [])"
  by (auto simp: year_pat_def advance_def run_Cons run_Nil split: list.splits)

lemma match_at_year_token:
  "match_at year_pat p s = Some m \<Longrightarrow> year_token (group0 m)"
  by (auto simp: match_at_def rmatch_year_pat advance_def split: list.splits if_splits)

lemma search_from_year_token:
  "search_from year_pat p s = Some m \<Longrightarrow> year_token (group0 m)"
proof (induction s arbitrary: p)
  case Nil
  then show ?case by (simp add: match_at_year_token)
next
  case (Cons c cs)
  then show ?case
    by (auto simp: match_at_year_token split: option.splits)
qed

text \<open>
  What a cell yields: nothing, a year token, or \<^verbatim>\<open>2100\<close> from a date of the year 2100, which
  the range check of the date branch lets through.
\<close>

lemma extract_year_from_value_cases:
  "extract_year_from_value v = [] \<or> year_token (extract_year_from_value v)
     \<or> (extract_year_from_value v = ascii ''2100'' \<and> (\<exists>s. v = Date 2100 s))"
proof (cases "\<exists>y s. v = Date y s \<and> 1900 \<le> y \<and> y \<le> 2100")
  case True
  then obtain y s where v: "v = Date y s" and y: "1900 \<le> y" "y \<le> 2100" by blast
  have e: "extract_year_from_value v = py_str_int y"
    using v y by (simp add: extract_year_from_value_def)
  show ?thesis
  proof (cases "y = 2100")
    case True
    then show ?thesis using e v by (simp add: py_str_int_2100)
  next
    case False
    then have "y \<le> 2099" using y by simp
    then show ?thesis using e py_str_int_year [OF y(1)] by simp
  qed
next
  case False
  then have "extract_year_from_value v = [] \<or>
      (\<exists>m. re_search year_pat (py_str v) = Some m \<and> extract_year_from_value v = group0 m)"
    by (cases v) (auto simp: extract_year_from_value_def split: option.splits)
  then show ?thesis
    using search_from_year_token by (auto simp: re_search_def)
qed

lemma find_append_option:
  "find P (xs @ ys) = (case find P xs of None \<Rightarrow> find P ys | Some x \<Rightarrow> Some x)"
  by (induction xs) auto

lemma scan_cols_find:
  assumes "r < shape0 raw" "\<forall>c\<in>set cs. c < shape1 raw"
  shows "scan_cols raw r cs =
           Inr (find (\<lambda>y. y \<noteq> []) (map (\<lambda>c. extract_year_from_value (cell_at (raw ! r) c)) cs))"
  using assms by (induction cs) (auto simp: iloc_def Let_def)

lemma scan_rows_find:
  assumes "\<forall>r\<in>set rs. r < shape0 raw" "\<forall>c\<in>set cs. c < shape1 raw"
  shows "scan_rows raw rs cs =
           Inr (find (\<lambda>y. y \<noteq> [])
                  (concat (map (\<lambda>r. map (\<lambda>c. extract_year_from_value (cell_at (raw ! r) c)) cs) rs)))"
  using assms
proof (induction rs)
  case Nil
  then show ?case by simp
next
  case (Cons r rs)
  then show ?case
    by (simp add: scan_cols_find find_append_option split: option.splits)
qed

lemma map_nth_take: "map (\<lambda>i. f (xs ! i)) [0..<min k (length xs)] = map f (take k xs)"
  by (rule nth_equalityI) simp_all

lemma extract_year_find:
  "extract_year raw =
     Inr (if probe raw \<noteq> [] then probe raw else first_year (region raw))"
proof -
  have p: "(case iloc raw 5 0 of Inl e \<Rightarrow> [] | Inr v \<Rightarrow> extract_year_from_value v) = probe raw"
    by (simp add: iloc_def probe_def shape0_def)
  have s: "scan_rows raw [0..<min 25 (shape0 raw)] [0..<min 6 (shape1 raw)] =
           Inr (find (\<lambda>y. y \<noteq> []) (map extract_year_from_value (region raw)))"
    by (subst scan_rows_find)
       (simp_all add: region_def shape0_def map_concat comp_def
          map_nth_take [where f = "\<lambda>row. map (\<lambda>c. extract_year_from_value (cell_at row c)) [0..<min 6 (shape1 raw)]"])
  show ?thesis
    unfolding extract_year_def p Let_def s first_year_def by (simp split: option.splits)
qed

lemma cell_at_cases: "cell_at row c = NaN \<or> cell_at row c \<in> set row"
  by (simp add: cell_at_def)

lemma extract_year_from_value_NaN: "extract_year_from_value NaN = []"
  by (simp add: extract_year_from_value_def)

text \<open>A year that is found comes from a cell of the sheet.\<close>

lemma extract_year_origin:
  assumes "extract_year raw = Inr y" "y \<noteq> []"
  shows "\<exists>row\<in>set raw. \<exists>v\<in>set row. y = extract_year_from_value v"
proof -
  have "\<exists>row\<in>set raw. \<exists>c. y = extract_year_from_value (cell_at row c)"
  proof (cases "probe raw \<noteq> []")
    case True
    then have "y = probe raw" using assms(1) by (simp add: extract_year_find)
    with True show ?thesis
      by (auto simp: probe_def split: if_splits intro: nth_mem)
  next
    case False
    then have "find (\<lambda>y. y \<noteq> []) (map extract_year_from_value (region raw)) = Some y"
      using assms by (auto simp: extract_year_find first_year_def split: option.splits)
    then have "y \<in> set (map extract_year_from_value (region raw))"
      by (auto simp: find_Some_iff)
    then show ?thesis
      by (auto simp: region_def dest: in_set_takeD)
  qed
  then obtain row c where r: "row \<in> set raw" and e: "y = extract_year_from_value (cell_at row c)"
    by blast
  with assms(2) have "cell_at row c \<noteq> NaN"
    by (auto simp: extract_year_from_value_NaN)
  then have "cell_at row c \<in> set row"
    using cell_at_cases [of row c] by simp
  with r e show ?thesis by blast
qed


section \<open>The matcher and what a pattern matches\<close>

lemma run_ge_iff: "k \<le> run a u \<longleftrightarrow> k \<le> length u \<and> list_all (atom_ok a) (take k u)"
proof (induction u arbitrary: k)
  case Nil
  then show ?case by (simp add: run_Nil)
next
  case (Cons c cs)
  then show ?case by (cases k) (auto simp: run_Cons)
qed

lemma run_prefix_iff:
  "(\<exists>k. lo \<le> k \<and> k \<le> run a u \<and> drop k u = v) \<longleftrightarrow>
   (\<exists>w. u = w @ v \<and> lo \<le> length w \<and> list_all (atom_ok a) w)"
proof
  assume "\<exists>k. lo \<le> k \<and> k \<le> run a u \<and> drop k u = v"
  then obtain k where k: "lo \<le> k" "k \<le> run a u" "drop k u = v" by blast
  then have "u = take k u @ v" "lo \<le> length (take k u)" "list_all (atom_ok a) (take k u)"
    using append_take_drop_id [of k u] by (simp_all add: run_ge_iff)
  then show "\<exists>w. u = w @ v \<and> lo \<le> length w \<and> list_all (atom_ok a) w" by blast
next
  assume "\<exists>w. u = w @ v \<and> lo \<le> length w \<and> list_all (atom_ok a) w"
  then obtain w where w: "u = w @ v" "lo \<le> length w" "list_all (atom_ok a) w" by blast
  then have "lo \<le> length w \<and> length w \<le> run a u \<and> drop (length w) u = v"
    by (simp add: run_ge_iff)
  then show "\<exists>k. lo \<le> k \<and> k \<le> run a u \<and> drop k u = v" by blast
qed

lemma set_rmatch_Star:
  "set (rmatch (Star a) st) = {advance k st | k. k \<le> run a (rest st)}"
  by (auto simp del: upt_Suc simp: less_Suc_eq_le)

lemma set_rmatch_Plus:
  "set (rmatch (Plus a) st) = {advance k st | k. 1 \<le> k \<and> k \<le> run a (rest st)}"
  by (auto simp del: upt_Suc simp: less_Suc_eq_le)

lemma rmatch_pos:
  "st' \<in> set (rmatch r st) \<Longrightarrow> \<exists>w. rest st = w @ rest st' \<and> pos st' = pos st + length w"
proof (induction r arbitrary: st st')
  case (Atom a)
  then show ?case
    by (cases "rest st") (auto simp: advance_def split: if_splits)
next
  case (Seq r1 r2)
  then obtain mid where m: "mid \<in> set (rmatch r1 st)" "st' \<in> set (rmatch r2 mid)" by auto
  from Seq.IH(1) [OF m(1)] obtain w1 where w1: "rest st = w1 @ rest mid" "pos mid = pos st + length w1"
    by blast
  from Seq.IH(2) [OF m(2)] obtain w2 where w2: "rest mid = w2 @ rest st'" "pos st' = pos mid + length w2"
    by blast
  have "rest st = (w1 @ w2) @ rest st' \<and> pos st' = pos st + length (w1 @ w2)"
    using w1 w2 by simp
  then show ?case by blast
next
  case (Alt r1 r2)
  then show ?case by auto
next
  case (Opt r)
  then show ?case by auto
next
  case (Star a)
  then obtain k where k: "k \<le> run a (rest st)" "st' = advance k st"
    unfolding set_rmatch_Star by blast
  then have "k \<le> length (rest st)" by (simp add: run_ge_iff)
  then have "rest st = take k (rest st) @ rest st' \<and> pos st' = pos st + length (take k (rest st))"
    using k by (simp add: advance_def)
  then show ?case by blast
next
  case (Plus a)
  then obtain k where k: "k \<le> run a (rest st)" "st' = advance k st"
    unfolding set_rmatch_Plus by blast
  then have "k \<le> length (rest st)" by (simp add: run_ge_iff)
  then have "rest st = take k (rest st) @ rest st' \<and> pos st' = pos st + length (take k (rest st))"
    using k by (simp add: advance_def)
  then show ?case by blast
next
  case (Rep n a)
  then have k: "n \<le> run a (take n (rest st))" "st' = advance n st" by (auto split: if_splits)
  then have "n \<le> length (rest st)" by (simp add: run_ge_iff)
  then have "rest st = take n (rest st) @ rest st' \<and> pos st' = pos st + length (take n (rest st))"
    using k by (simp add: advance_def)
  then show ?case by blast
next
  case (Group i r)
  then show ?case by auto
next
  case Bol
  then show ?case by (auto split: if_splits)
next
  case Eol
  then show ?case by (auto split: if_splits)
qed

lemma rmatch_steps:
  "(\<exists>st'\<in>set (rmatch r st). rest st' = v) \<longleftrightarrow> steps r (pos st) (rest st) v"
proof (induction r arbitrary: st v)
  case (Atom a)
  then show ?case by (cases "rest st") (auto simp: advance_def)
next
  case (Seq r1 r2)
  show ?case
  proof
    assume "\<exists>st'\<in>set (rmatch (Seq r1 r2) st). rest st' = v"
    then obtain mid st' where m: "mid \<in> set (rmatch r1 st)" "st' \<in> set (rmatch r2 mid)" "rest st' = v"
      by auto
    from rmatch_pos [OF m(1)] obtain w where w: "rest st = w @ rest mid" "pos mid = pos st + length w"
      by blast
    have "steps r1 (pos st) (rest st) (rest mid)"
      using Seq.IH(1) [of st "rest mid"] m(1) by blast
    moreover have "steps r2 (pos st + length w) (rest mid) v"
      using Seq.IH(2) [of mid v] m(2,3) w(2) by auto
    ultimately show "steps (Seq r1 r2) (pos st) (rest st) v"
      using w(1) by auto
  next
    assume "steps (Seq r1 r2) (pos st) (rest st) v"
    then obtain w m where wm: "rest st = w @ m" "steps r1 (pos st) (rest st) m"
        "steps r2 (pos st + length w) m v"
      by auto
    from wm(2) obtain mid where mid: "mid \<in> set (rmatch r1 st)" "rest mid = m"
      using Seq.IH(1) [of st m] by blast
    from rmatch_pos [OF mid(1)] obtain w' where w': "rest st = w' @ rest mid" "pos mid = pos st + length w'"
      by blast
    have "w' = w" using wm(1) w'(1) mid(2) by simp
    then have "steps r2 (pos mid) (rest mid) v" using wm(3) w'(2) mid(2) by simp
    then obtain st' where "st' \<in> set (rmatch r2 mid)" "rest st' = v"
      using Seq.IH(2) [of mid v] by blast
    with mid(1) show "\<exists>st'\<in>set (rmatch (Seq r1 r2) st). rest st' = v" by auto
  qed
next
  case (Alt r1 r2)
  then show ?case by (auto simp: bex_Un)
next
  case (Opt r)
  then show ?case by (auto simp: bex_Un)
next
  case (Star a)
  have "(\<exists>st'\<in>set (rmatch (Star a) st). rest st' = v) \<longleftrightarrow>
        (\<exists>k. 0 \<le> k \<and> k \<le> run a (rest st) \<and> drop k (rest st) = v)"
    unfolding set_rmatch_Star by (auto simp: advance_def)
  also have "\<dots> \<longleftrightarrow> (\<exists>w. rest st = w @ v \<and> 0 \<le> length w \<and> list_all (atom_ok a) w)"
    by (rule run_prefix_iff)
  finally show ?case by simp
next
  case (Plus a)
  have "(\<exists>st'\<in>set (rmatch (Plus a) st). rest st' = v) \<longleftrightarrow>
        (\<exists>k. 1 \<le> k \<and> k \<le> run a (rest st) \<and> drop k (rest st) = v)"
    unfolding set_rmatch_Plus by (auto simp: advance_def)
  also have "\<dots> \<longleftrightarrow> (\<exists>w. rest st = w @ v \<and> 1 \<le> length w \<and> list_all (atom_ok a) w)"
    by (rule run_prefix_iff)
  finally show ?case by (simp add: Suc_le_eq)
next
  case (Rep n a)
  show ?case
  proof
    assume "\<exists>st'\<in>set (rmatch (Rep n a) st). rest st' = v"
    then have "n \<le> run a (take n (rest st))" "drop n (rest st) = v"
      by (auto simp: advance_def split: if_splits)
    then have "rest st = take n (rest st) @ v \<and> length (take n (rest st)) = n
        \<and> list_all (atom_ok a) (take n (rest st))"
      using append_take_drop_id [of n "rest st"] by (simp add: run_ge_iff)
    then show "steps (Rep n a) (pos st) (rest st) v" by auto
  next
    assume "steps (Rep n a) (pos st) (rest st) v"
    then obtain w where "rest st = w @ v" "length w = n" "list_all (atom_ok a) w" by auto
    then show "\<exists>st'\<in>set (rmatch (Rep n a) st). rest st' = v"
      by (simp add: run_ge_iff advance_def)
  qed
next
  case (Group i r)
  then show ?case by auto
next
  case Bol
  then show ?case by auto
next
  case Eol
  then show ?case by auto
qed

lemma rmatch_captured:
  "st' \<in> set (rmatch r st) \<Longrightarrow> fst ` set (groups st) \<union> captured r \<subseteq> fst ` set (groups st')"
proof (induction r arbitrary: st st')
  case (Seq r1 r2)
  then obtain mid where m: "mid \<in> set (rmatch r1 st)" "st' \<in> set (rmatch r2 mid)" by auto
  show ?case using Seq.IH(1) [OF m(1)] Seq.IH(2) [OF m(2)]
    by (simp only: captured.simps) blast
next
  case (Alt r1 r2)
  then have "st' \<in> set (rmatch r1 st) \<or> st' \<in> set (rmatch r2 st)" by auto
  then show ?case
  proof
    assume "st' \<in> set (rmatch r1 st)"
    from Alt.IH(1) [OF this] show ?thesis by (simp only: captured.simps) blast
  next
    assume "st' \<in> set (rmatch r2 st)"
    from Alt.IH(2) [OF this] show ?thesis by (simp only: captured.simps) blast
  qed
next
  case (Opt r)
  then have "st' \<in> set (rmatch r st) \<or> st' = st" by auto
  then show ?case
  proof
    assume "st' \<in> set (rmatch r st)"
    from Opt.IH [OF this] show ?thesis by (simp only: captured.simps) blast
  next
    assume "st' = st"
    then show ?thesis by simp
  qed
next
  case (Group i r)
  then obtain x where x: "x \<in> set (rmatch r st)"
      "st' = x\<lparr>groups := (i, take (pos x - pos st) (rest st)) # groups x\<rparr>"
    by auto
  show ?case using Group.IH [OF x(1)] x(2) by auto
next
  case (Star a)
  then show ?case unfolding set_rmatch_Star by (auto simp: advance_def)
next
  case (Plus a)
  then show ?case unfolding set_rmatch_Plus by (auto simp: advance_def)
qed (auto simp: advance_def split: list.splits if_splits)


section \<open>Stripped strings and anchored patterns\<close>

lemma py_rstrip_prefix: "\<exists>w. s = py_rstrip s @ w \<and> list_all isspace w"
proof -
  have "rev s = takeWhile isspace (rev s) @ dropWhile isspace (rev s)" by simp
  then have "s = rev (dropWhile isspace (rev s)) @ rev (takeWhile isspace (rev s))"
    by (metis rev_append rev_rev_ident)
  moreover have "list_all isspace (rev (takeWhile isspace (rev s)))"
    by (simp add: list_all_iff) (meson set_takeWhileD)
  ultimately show ?thesis unfolding py_rstrip_def by blast
qed

lemma py_strip_no_trailing: "py_strip t = a @ [c] \<Longrightarrow> \<not> isspace c"
proof -
  assume "py_strip t = a @ [c]"
  then have "dropWhile isspace (rev (py_lstrip t)) = c # rev a"
    by (simp add: py_strip_def py_rstrip_def rev_swap)
  then show ?thesis using hd_dropWhile [of isspace "rev (py_lstrip t)"] by simp
qed

lemma py_strip_no_leading: "py_strip t = c # a \<Longrightarrow> \<not> isspace c"
proof -
  assume e: "py_strip t = c # a"
  obtain w where "py_lstrip t = py_strip t @ w"
    using py_rstrip_prefix [of "py_lstrip t"] by (auto simp: py_strip_def)
  with e have "dropWhile isspace t = c # a @ w" by (simp add: py_lstrip_def)
  then show ?thesis using hd_dropWhile [of isspace t] by simp
qed

lemma py_strip_fixed:
  assumes "s = [] \<or> (\<not> isspace (hd s) \<and> \<not> isspace (last s))"
  shows "py_strip s = s"
proof (cases "s = []")
  case True
  then show ?thesis by (simp add: py_strip_def py_lstrip_def py_rstrip_def)
next
  case False
  with assms have h: "\<not> isspace (hd s)" and l: "\<not> isspace (last s)" by simp_all
  have "py_lstrip s = s"
    using False h by (cases s) (simp_all add: py_lstrip_def)
  moreover have "py_rstrip s = s"
    using False l by (cases s rule: rev_cases) (simp_all add: py_rstrip_def)
  ultimately show ?thesis by (simp add: py_strip_def)
qed

lemma py_strip_ends: "py_strip t = [] \<or> (\<not> isspace (hd (py_strip t)) \<and> \<not> isspace (last (py_strip t)))"
proof (cases "py_strip t = []")
  case True
  then show ?thesis by simp
next
  case False
  then obtain c a where c: "py_strip t = c # a" by (cases "py_strip t") auto
  from False obtain b d where d: "py_strip t = b @ [d]" by (cases "py_strip t" rule: rev_cases) auto
  have "hd (py_strip t) = c" using c by simp
  moreover have "last (py_strip t) = d" using d by simp
  ultimately show ?thesis
    using py_strip_no_leading [OF c] py_strip_no_trailing [OF d] by simp
qed

lemma py_strip_idem: "py_strip (py_strip t) = py_strip t"
  by (rule py_strip_fixed) (rule py_strip_ends)

lemma isspace_newline: "isspace 0x0A"
  by (simp add: isspace_def whitespace_points_def)


text \<open>A pattern that starts with the anchor can match at the start of the subject only.\<close>

lemma match_at_Bol_later: "0 < p \<Longrightarrow> match_at (Seq Bol r) p s = None"
  by (simp add: match_at_def)

lemma search_from_Bol_later: "0 < p \<Longrightarrow> search_from (Seq Bol r) p s = None"
  by (induction s arbitrary: p) (simp_all add: match_at_Bol_later)

lemma search_Bol: "re_search (Seq Bol r) s = match_at (Seq Bol r) 0 s"
  unfolding re_search_def
  by (cases s) (simp_all add: search_from_Bol_later split: option.splits)


section \<open>The group pattern in words\<close>

lemma steps_suffix: "steps r p u v \<Longrightarrow> \<exists>w. u = w @ v"
proof (induction r arbitrary: p u v)
  case (Seq r1 r2)
  then obtain w m where "u = w @ m" "steps r2 (p + length w) m v" by auto
  with Seq.IH(2) [of "p + length w" m v] show ?case by auto
qed auto

lemma steps_Seq_iff:
  assumes "\<And>q m. steps r2 q m v = S m"
  shows "steps (Seq r1 r2) p u v \<longleftrightarrow> (\<exists>m. steps r1 p u m \<and> S m)"
proof
  assume "steps (Seq r1 r2) p u v"
  then show "\<exists>m. steps r1 p u m \<and> S m" using assms by auto
next
  assume "\<exists>m. steps r1 p u m \<and> S m"
  then obtain m where m: "steps r1 p u m" "S m" by blast
  from steps_suffix [OF m(1)] obtain w where "u = w @ m" by blast
  with m assms show "steps (Seq r1 r2) p u v" by auto
qed

lemma length_3_iff: "length w = 3 \<longleftrightarrow> (\<exists>a b c. w = [a, b, c])"
  by (auto simp: numeral_3_eq_3 length_Suc_conv)

lemma steps_code_re:
  "steps code_re p u v \<longleftrightarrow>
     (\<exists>d1 d2 d3. u = [0x47, d1, d2, d3] @ v \<and> isdecimal d1 \<and> isdecimal d2 \<and> isdecimal d3)"
proof -
  have r: "\<And>q m. steps (Rep 3 (One Cat_d)) q m v \<longleftrightarrow>
      (\<exists>d1 d2 d3. m = [d1, d2, d3] @ v \<and> isdecimal d1 \<and> isdecimal d2 \<and> isdecimal d3)"
  proof -
    fix q :: nat and m :: pystr
    show "steps (Rep 3 (One Cat_d)) q m v \<longleftrightarrow>
      (\<exists>d1 d2 d3. m = [d1, d2, d3] @ v \<and> isdecimal d1 \<and> isdecimal d2 \<and> isdecimal d3)"
    proof
      assume "steps (Rep 3 (One Cat_d)) q m v"
      then obtain w where w: "m = w @ v" "length w = 3" "list_all (atom_ok (One Cat_d)) w"
        by auto
      from w(2) obtain a b c where "w = [a, b, c]" unfolding length_3_iff by blast
      with w show "\<exists>d1 d2 d3. m = [d1, d2, d3] @ v \<and> isdecimal d1 \<and> isdecimal d2 \<and> isdecimal d3"
        by auto
    next
      assume "\<exists>d1 d2 d3. m = [d1, d2, d3] @ v \<and> isdecimal d1 \<and> isdecimal d2 \<and> isdecimal d3"
      then obtain d1 d2 d3 where "m = [d1, d2, d3] @ v" "isdecimal d1" "isdecimal d2" "isdecimal d3"
        by blast
      then have "m = [d1, d2, d3] @ v \<and> length [d1, d2, d3] = 3
          \<and> list_all (atom_ok (One Cat_d)) [d1, d2, d3]"
        by simp
      then show "steps (Rep 3 (One Cat_d)) q m v"
        unfolding steps.simps by blast
    qed
  qed
  show ?thesis
    unfolding code_re_def by (subst steps_Seq_iff [OF r]) auto
qed

lemma suffix_text_iff:
  "suffix_text suf \<longleftrightarrow>
     (\<exists>t. suf = 0x5F # t \<and> t \<noteq> [] \<and> list_all (\<lambda>c. c \<noteq> 0x3A \<and> \<not> isspace c) t)"
  by (cases suf) (auto simp: suffix_text_def)

lemma atom_ok_not_colon_space:
  "atom_ok (NoneOf [Ch 0x3A, Cat_s]) = (\<lambda>c. c \<noteq> 0x3A \<and> \<not> isspace c)"
  by (rule ext) simp

lemma steps_suffix_re:
  "steps suffix_re p u v \<longleftrightarrow> (\<exists>suf. u = suf @ v \<and> (suf = [] \<or> suffix_text suf))"
proof
  assume "steps suffix_re p u v"
  then have "v = u \<or> steps (Seq (Atom (One (Ch 0x5F))) (Plus (NoneOf [Ch 0x3A, Cat_s]))) p u v"
    by (auto simp: suffix_re_def)
  then show "\<exists>suf. u = suf @ v \<and> (suf = [] \<or> suffix_text suf)"
  proof
    assume "v = u"
    then have "u = [] @ v" by simp
    then show ?thesis by blast
  next
    assume "steps (Seq (Atom (One (Ch 0x5F))) (Plus (NoneOf [Ch 0x3A, Cat_s]))) p u v"
    then obtain m t where "u = 0x5F # m" "m = t @ v" "t \<noteq> []"
        "list_all (\<lambda>c. c \<noteq> 0x3A \<and> \<not> isspace c) t"
      unfolding steps.simps atom_ok_not_colon_space by auto
    then have "u = (0x5F # t) @ v \<and> suffix_text (0x5F # t)"
      by (simp add: suffix_text_iff)
    then show ?thesis by blast
  qed
next
  assume "\<exists>suf. u = suf @ v \<and> (suf = [] \<or> suffix_text suf)"
  then obtain suf where suf: "u = suf @ v" "suf = [] \<or> suffix_text suf" by blast
  from suf(2) show "steps suffix_re p u v"
  proof
    assume "suf = []"
    with suf(1) show ?thesis by (simp add: suffix_re_def)
  next
    assume "suffix_text suf"
    then obtain t where t: "suf = 0x5F # t" "t \<noteq> []" "list_all (\<lambda>c. c \<noteq> 0x3A \<and> \<not> isspace c) t"
      unfolding suffix_text_iff by blast
    have a: "steps (Atom (One (Ch 0x5F))) p u (t @ v)"
      using suf(1) t(1) by simp
    have b: "steps (Plus (NoneOf [Ch 0x3A, Cat_s])) (p + length [0x5F :: nat]) (t @ v) v"
      unfolding steps.simps atom_ok_not_colon_space using t by blast
    have "u = [0x5F] @ (t @ v)" using suf(1) t(1) by simp
    with a b have "steps (Seq (Atom (One (Ch 0x5F))) (Plus (NoneOf [Ch 0x3A, Cat_s]))) p u v"
      unfolding steps.simps(2) by blast
    then show ?thesis by (simp add: suffix_re_def)
  qed
qed

lemma atom_ok_Dot: "atom_ok Dot = (\<lambda>c. c \<noteq> 0x0A)"
  by (rule ext) simp

lemma atom_ok_space: "atom_ok (One Cat_s) = isspace"
  by (rule ext) simp

lemma steps_text_end:
  "steps (Seq (Group 2 (Plus Dot)) Eol) q m v \<longleftrightarrow>
     (\<exists>txt. m = txt @ v \<and> txt \<noteq> [] \<and> list_all (\<lambda>c. c \<noteq> 0x0A) txt) \<and> (v = [] \<or> v = [0x0A])"
proof -
  have e: "\<And>q m. steps Eol q m v = (m = v \<and> (v = [] \<or> v = [0x0A]))"
    by auto
  show ?thesis
    by (subst steps_Seq_iff [OF e]) (simp add: atom_ok_Dot)
qed

lemma steps_tail_re:
  "steps tail_re p u v \<longleftrightarrow>
     (\<exists>w1 w2 txt. u = w1 @ [0x3A] @ w2 @ txt @ v \<and> list_all isspace w1 \<and> list_all isspace w2 \<and>
        txt \<noteq> [] \<and> list_all (\<lambda>c. c \<noteq> 0x0A) txt) \<and> (v = [] \<or> v = [0x0A])"
proof -
  let ?E = "v = [] \<or> v = [0x0A]"
  have s2: "\<And>q m. steps (Seq (Star (One Cat_s)) (Seq (Group 2 (Plus Dot)) Eol)) q m v \<longleftrightarrow>
      (\<exists>w2 txt. m = w2 @ txt @ v \<and> list_all isspace w2 \<and> txt \<noteq> [] \<and>
         list_all (\<lambda>c. c \<noteq> 0x0A) txt) \<and> ?E"
    by (subst steps_Seq_iff [OF steps_text_end]) (auto simp: atom_ok_space)
  have c: "\<And>q m. steps (Seq (Atom (One (Ch 0x3A)))
               (Seq (Star (One Cat_s)) (Seq (Group 2 (Plus Dot)) Eol))) q m v \<longleftrightarrow>
      (\<exists>w2 txt. m = [0x3A] @ w2 @ txt @ v \<and> list_all isspace w2 \<and> txt \<noteq> [] \<and>
         list_all (\<lambda>c. c \<noteq> 0x0A) txt) \<and> ?E"
    by (subst steps_Seq_iff [OF s2]) auto
  show ?thesis
    unfolding tail_re_def by (subst steps_Seq_iff [OF c]) (auto simp: atom_ok_space)
qed

lemma steps_code_suffix:
  "steps (Seq code_re suffix_re) p u v \<longleftrightarrow>
     (\<exists>d1 d2 d3 suf. u = [0x47, d1, d2, d3] @ suf @ v \<and> isdecimal d1 \<and> isdecimal d2 \<and> isdecimal d3
        \<and> (suf = [] \<or> suffix_text suf))"
  by (subst steps_Seq_iff [OF steps_suffix_re]) (auto simp: steps_code_re)

lemma steps_Bol_first: "steps (Seq Bol r) 0 s v \<longleftrightarrow> steps r 0 s v"
  by auto

lemma marker_text_iff:
  "marker_text x \<longleftrightarrow>
     (\<exists>d1 d2 d3 suf w1 w2 txt.
        x = [0x47, d1, d2, d3] @ suf @ w1 @ [0x3A] @ w2 @ txt \<and>
        isdecimal d1 \<and> isdecimal d2 \<and> isdecimal d3 \<and> (suf = [] \<or> suffix_text suf) \<and>
        list_all isspace w1 \<and> list_all isspace w2 \<and> txt \<noteq> [] \<and> list_all (\<lambda>c. c \<noteq> 0x0A) txt)"
  unfolding marker_text_def pattern_text_def by auto

lemma steps_group_pat_shape:
  "steps (group_pat keep) 0 s v \<longleftrightarrow>
     (\<exists>d1 d2 d3 suf w1 w2 lbl.
        s = [0x47, d1, d2, d3] @ suf @ w1 @ [0x3A] @ w2 @ lbl @ v \<and>
        isdecimal d1 \<and> isdecimal d2 \<and> isdecimal d3 \<and> (suf = [] \<or> suffix_text suf) \<and>
        list_all isspace w1 \<and> list_all isspace w2 \<and> lbl \<noteq> [] \<and> list_all (\<lambda>c. c \<noteq> 0x0A) lbl)
      \<and> (v = [] \<or> v = [0x0A])"
  (is "?L \<longleftrightarrow> ?R")
proof -
  let ?T = "\<lambda>m. (\<exists>w1 w2 lbl. m = w1 @ [0x3A] @ w2 @ lbl @ v \<and> list_all isspace w1 \<and>
        list_all isspace w2 \<and> lbl \<noteq> [] \<and> list_all (\<lambda>c. c \<noteq> 0x0A) lbl) \<and> (v = [] \<or> v = [0x0A])"
  let ?C = "\<lambda>m. \<exists>d1 d2 d3. s = [0x47, d1, d2, d3] @ m \<and> isdecimal d1 \<and> isdecimal d2 \<and> isdecimal d3"
  let ?S = "\<lambda>m m'. \<exists>suf. m = suf @ m' \<and> (suf = [] \<or> suffix_text suf)"
  have mid: "?R \<longleftrightarrow> (\<exists>m m'. ?C m \<and> ?S m m' \<and> ?T m')"
  proof
    assume ?R
    then obtain d1 d2 d3 suf w1 w2 lbl where
      h: "s = [0x47, d1, d2, d3] @ suf @ w1 @ [0x3A] @ w2 @ lbl @ v"
        "isdecimal d1" "isdecimal d2" "isdecimal d3" "suf = [] \<or> suffix_text suf"
        "list_all isspace w1" "list_all isspace w2" "lbl \<noteq> []" "list_all (\<lambda>c. c \<noteq> 0x0A) lbl"
        "v = [] \<or> v = [0x0A]"
      by blast
    have "?C (suf @ w1 @ [0x3A] @ w2 @ lbl @ v)" using h(1-4) by blast
    moreover have "?S (suf @ w1 @ [0x3A] @ w2 @ lbl @ v) (w1 @ [0x3A] @ w2 @ lbl @ v)"
      using h(5) by blast
    moreover have "?T (w1 @ [0x3A] @ w2 @ lbl @ v)" using h(6-10) by blast
    ultimately show "\<exists>m m'. ?C m \<and> ?S m m' \<and> ?T m'" by blast
  next
    assume "\<exists>m m'. ?C m \<and> ?S m m' \<and> ?T m'"
    then obtain m m' where c: "?C m" and s: "?S m m'" and t: "?T m'" by blast
    from c obtain d1 d2 d3 where c': "s = [0x47, d1, d2, d3] @ m" "isdecimal d1" "isdecimal d2" "isdecimal d3"
      by blast
    from s obtain suf where s': "m = suf @ m'" "suf = [] \<or> suffix_text suf" by blast
    from t obtain w1 w2 lbl where t': "m' = w1 @ [0x3A] @ w2 @ lbl @ v" "list_all isspace w1"
        "list_all isspace w2" "lbl \<noteq> []" "list_all (\<lambda>c. c \<noteq> 0x0A) lbl" "v = [] \<or> v = [0x0A]"
      by blast
    have "s = [0x47, d1, d2, d3] @ suf @ w1 @ [0x3A] @ w2 @ lbl @ v"
      using c'(1) s'(1) t'(1) by simp
    with c'(2-4) s'(2) t'(2-6) show ?R by blast
  qed
  have cs: "\<And>m'. steps (Seq code_re suffix_re) 0 s m' \<longleftrightarrow> (\<exists>m. ?C m \<and> ?S m m')"
    by (subst steps_Seq_iff [OF steps_suffix_re]) (simp add: steps_code_re)
  have k: "steps (Seq (Group 1 (Seq code_re suffix_re)) tail_re) 0 s v \<longleftrightarrow>
      (\<exists>m'. (\<exists>m. ?C m \<and> ?S m m') \<and> ?T m')"
    by (subst steps_Seq_iff [OF steps_tail_re]) (simp only: steps.simps(8) cs)
  have st: "\<And>q m. steps (Seq suffix_re tail_re) q m v \<longleftrightarrow> (\<exists>m'. ?S m m' \<and> ?T m')"
    by (subst steps_Seq_iff [OF steps_tail_re]) (simp only: steps_suffix_re)
  have d: "steps (Seq (Group 1 code_re) (Seq suffix_re tail_re)) 0 s v \<longleftrightarrow>
      (\<exists>m. ?C m \<and> (\<exists>m'. ?S m m' \<and> ?T m'))"
    by (subst steps_Seq_iff [OF st]) (simp only: steps.simps(8) steps_code_re)
  have "?L \<longleftrightarrow> (\<exists>m m'. ?C m \<and> ?S m m' \<and> ?T m')"
  proof (cases keep)
    case True
    then have "?L \<longleftrightarrow> steps (Seq (Group 1 (Seq code_re suffix_re)) tail_re) 0 s v"
      by (simp only: group_pat_def if_True steps_Bol_first)
    also have "\<dots> \<longleftrightarrow> (\<exists>m m'. ?C m \<and> ?S m m' \<and> ?T m')"
      unfolding k by blast
    finally show ?thesis .
  next
    case False
    then have "?L \<longleftrightarrow> steps (Seq (Group 1 code_re) (Seq suffix_re tail_re)) 0 s v"
      by (simp only: group_pat_def if_False steps_Bol_first)
    also have "\<dots> \<longleftrightarrow> (\<exists>m m'. ?C m \<and> ?S m m' \<and> ?T m')"
      unfolding d by blast
    finally show ?thesis .
  qed
  with mid show ?thesis by simp
qed

lemma steps_group_pat:
  "steps (group_pat keep) 0 s v \<longleftrightarrow> (\<exists>x. s = x @ v \<and> marker_text x) \<and> (v = [] \<or> v = [0x0A])"
proof
  assume "steps (group_pat keep) 0 s v"
  then obtain d1 d2 d3 suf w1 w2 lbl where
    h: "s = [0x47, d1, d2, d3] @ suf @ w1 @ [0x3A] @ w2 @ lbl @ v"
      "isdecimal d1" "isdecimal d2" "isdecimal d3" "suf = [] \<or> suffix_text suf"
      "list_all isspace w1" "list_all isspace w2" "lbl \<noteq> []" "list_all (\<lambda>c. c \<noteq> 0x0A) lbl"
      "v = [] \<or> v = [0x0A]"
    unfolding steps_group_pat_shape by blast
  have "marker_text ([0x47, d1, d2, d3] @ suf @ w1 @ [0x3A] @ w2 @ lbl)"
    unfolding marker_text_iff using h(2-9) by blast
  moreover have "s = ([0x47, d1, d2, d3] @ suf @ w1 @ [0x3A] @ w2 @ lbl) @ v"
    using h(1) by simp
  ultimately show "(\<exists>x. s = x @ v \<and> marker_text x) \<and> (v = [] \<or> v = [0x0A])"
    using h(10) by blast
next
  assume "(\<exists>x. s = x @ v \<and> marker_text x) \<and> (v = [] \<or> v = [0x0A])"
  then obtain x where x: "s = x @ v" "marker_text x" and v: "v = [] \<or> v = [0x0A]" by blast
  from x(2) obtain d1 d2 d3 suf w1 w2 lbl where
    h: "x = [0x47, d1, d2, d3] @ suf @ w1 @ [0x3A] @ w2 @ lbl"
      "isdecimal d1" "isdecimal d2" "isdecimal d3" "suf = [] \<or> suffix_text suf"
      "list_all isspace w1" "list_all isspace w2" "lbl \<noteq> []" "list_all (\<lambda>c. c \<noteq> 0x0A) lbl"
    unfolding marker_text_iff by blast
  have "s = [0x47, d1, d2, d3] @ suf @ w1 @ [0x3A] @ w2 @ lbl @ v"
    using x(1) h(1) by simp
  with h(2-9) v show "steps (group_pat keep) 0 s v"
    unfolding steps_group_pat_shape by blast
qed


section \<open>Group rows\<close>

lemma match_at_iff_steps: "match_at r p s \<noteq> None \<longleftrightarrow> (\<exists>v. steps r p s v)"
proof -
  have "match_at r p s \<noteq> None \<longleftrightarrow> rmatch r \<lparr>pos = p, rest = s, groups = []\<rparr> \<noteq> []"
    by (simp add: match_at_def split: list.splits)
  also have "\<dots> \<longleftrightarrow> (\<exists>v. \<exists>st'\<in>set (rmatch r \<lparr>pos = p, rest = s, groups = []\<rparr>). rest st' = v)"
    by (cases "rmatch r \<lparr>pos = p, rest = s, groups = []\<rparr>") auto
  also have "\<dots> \<longleftrightarrow> (\<exists>v. steps r p s v)"
    by (simp only: rmatch_steps) simp
  finally show ?thesis .
qed

lemma match_at_captured:
  assumes "match_at r p s = Some m" "i \<in> captured r"
  shows "group m i \<noteq> None"
proof -
  from assms(1) obtain st sts where st: "rmatch r \<lparr>pos = p, rest = s, groups = []\<rparr> = st # sts"
      and m: "captures m = groups st"
    by (auto simp: match_at_def split: list.splits)
  have "st \<in> set (rmatch r \<lparr>pos = p, rest = s, groups = []\<rparr>)" using st by simp
  from rmatch_captured [OF this] assms(2) have "i \<in> fst ` set (captures m)"
    using m by auto
  then show ?thesis
    by (simp add: group_def map_of_eq_None_iff)
qed

lemma group_pat_Bol: "\<exists>r. group_pat keep = Seq Bol r"
  by (simp add: group_pat_def)

lemma captured_group_pat: "captured (group_pat keep) = {1, 2}"
  by (auto simp: group_pat_def tail_re_def code_re_def suffix_re_def)

lemma str_extract_group_pat:
  "str_extract (group_pat keep) 1 (Some s) \<noteq> None \<longleftrightarrow> (\<exists>v. steps (group_pat keep) 0 s v)"
proof -
  obtain r where r: "group_pat keep = Seq Bol r" using group_pat_Bol by blast
  have s: "re_search (group_pat keep) s = match_at (group_pat keep) 0 s"
    unfolding r by (rule search_Bol)
  show ?thesis
  proof (cases "match_at (group_pat keep) 0 s")
    case None
    then show ?thesis
      using match_at_iff_steps [of "group_pat keep" 0 s] by (simp add: str_extract_def s)
  next
    case (Some m)
    then have "group m 1 \<noteq> None"
      by (rule match_at_captured) (simp add: captured_group_pat)
    then show ?thesis
      using Some match_at_iff_steps [of "group_pat keep" 0 s] by (simp add: str_extract_def s)
  qed
qed

lemma str_extract_group_pat_2:
  "str_extract (group_pat keep) 1 x \<noteq> None \<Longrightarrow> str_extract (group_pat keep) 2 x \<noteq> None"
proof (cases x)
  case None
  then show "str_extract (group_pat keep) 1 x \<noteq> None \<Longrightarrow> ?thesis" by (simp add: str_extract_def)
next
  case (Some s)
  obtain r where r: "group_pat keep = Seq Bol r" using group_pat_Bol by blast
  have s: "re_search (group_pat keep) s = match_at (group_pat keep) 0 s"
    unfolding r by (rule search_Bol)
  assume "str_extract (group_pat keep) 1 x \<noteq> None"
  then obtain m where m: "match_at (group_pat keep) 0 s = Some m"
    using Some by (auto simp: str_extract_def s split: option.splits)
  then have "group m 2 \<noteq> None"
    by (rule match_at_captured) (simp add: captured_group_pat)
  then show ?thesis using Some m by (simp add: str_extract_def s)
qed

lemma normalize_account_stripped:
  "normalize_account c = Some s \<Longrightarrow> py_strip s = s"
  by (auto simp: normalize_account_def py_strip_idem)

lemma stripped_no_newline_end: "py_strip s = s \<Longrightarrow> s \<noteq> x @ [0x0A]"
  using py_strip_no_trailing [of s x "0x0A"] isspace_newline by auto

text \<open>A row is a group row exactly when its normalized account reads as the pattern says.\<close>

lemma is_group_iff:
  "is_group keep c \<longleftrightarrow> (\<exists>s. normalize_account c = Some s \<and> marker_text s)"
proof (cases "normalize_account c")
  case None
  then show ?thesis by (simp add: is_group_def str_extract_def)
next
  case (Some s)
  have n: "\<And>x. s \<noteq> x @ [0x0A]"
    using normalize_account_stripped [OF Some] by (rule stripped_no_newline_end)
  have "is_group keep c \<longleftrightarrow> (\<exists>v. steps (group_pat keep) 0 s v)"
    unfolding is_group_def Some by (rule str_extract_group_pat)
  also have "\<dots> \<longleftrightarrow> (\<exists>v. (\<exists>x. s = x @ v \<and> marker_text x) \<and> (v = [] \<or> v = [0x0A]))"
    by (simp only: steps_group_pat)
  also have "\<dots> \<longleftrightarrow> marker_text s"
    using n by auto
  finally show ?thesis by (simp add: Some)
qed

lemma normalize_account_Str: "normalize_account (Str s) = Some (py_strip (py_replace_char 0xA0 0x20 s))"
  by (simp add: normalize_account_def astype_string_def)

lemma normalize_A501: "normalize_account (Str (ascii ''A501: Group X'')) = Some (ascii ''A501: Group X'')"
  by (simp add: normalize_account_Str py_replace_char_def py_strip_def py_lstrip_def py_rstrip_def
        ascii_def isspace_def whitespace_points_def)

lemma pattern_textI:
  assumes "s = [l, d1, d2, d3] @ suf @ w1 @ [0x3A] @ w2 @ lbl"
    "letter l" "isdecimal d1" "isdecimal d2" "isdecimal d3" "suf = [] \<or> suffix_text suf"
    "list_all isspace w1" "list_all isspace w2" "lbl \<noteq> []" "list_all (\<lambda>c. c \<noteq> 0x0A) lbl"
  shows "pattern_text letter s"
  unfolding pattern_text_def using assms by blast

lemma spec_marker_A501: "spec_marker_text (ascii ''A501: Group X'')"
  unfolding spec_marker_text_def
  by (rule pattern_textI [where l = "0x41" and ?d1.0 = "0x35" and ?d2.0 = "0x30" and ?d3.0 = "0x31"
        and suf = "[]" and ?w1.0 = "[]" and ?w2.0 = "[0x20]" and lbl = "ascii ''Group X''"])
     (simp_all add: ascii_def isdecimal_def decimal_zero_points_def isspace_def whitespace_points_def)

lemma marker_text_G: "marker_text s \<Longrightarrow> hd s = 0x47"
  by (auto simp: marker_text_iff)


section \<open>Columns of a frame\<close>

lemma boolean_index_Nil: "boolean_index [] ks = []"
  by (simp add: boolean_index_def)

lemma boolean_index_Cons:
  "boolean_index (x # xs) (k # ks) = (if k then x # boolean_index xs ks else boolean_index xs ks)"
  by (simp add: boolean_index_def)

lemma series_where_Nil: "series_where [] bs = []"
  by (simp add: series_where_def)

lemma series_where_Cons:
  "series_where (x # xs) (b # bs) = (if b then x else None) # series_where xs bs"
  by (simp add: series_where_def)

lemma getitem_setitem_same:
  "getitem (setitem n vs df) n =
     (if n \<in> set (columns df) then replicate (length (getitem df n)) vs else [vs])"
proof -
  have a: "map snd (filter (\<lambda>kc. fst kc = n) (map (\<lambda>kc. if fst kc = n then (fst kc, vs) else kc) df))
        = replicate (length (filter (\<lambda>kc. fst kc = n) df)) vs"
    by (induction df) auto
  have b: "n \<notin> set (map fst df) \<Longrightarrow> filter (\<lambda>kc. fst kc = n) df = []"
    by (induction df) auto
  show ?thesis
    using a b by (simp add: getitem_def setitem_def columns_def)
qed

lemma getitem_nonempty: "n \<in> set (columns df) \<Longrightarrow> getitem df n \<noteq> []"
  by (induction df) (auto simp: getitem_def columns_def)

lemma getitem_setitem_other:
  "n' \<noteq> n \<Longrightarrow> getitem (setitem n vs df) n' = getitem df n'"
proof -
  assume ne: "n' \<noteq> n"
  have "filter (\<lambda>kc. fst kc = n') (map (\<lambda>kc. if fst kc = n then (fst kc, vs) else kc) df)
        = filter (\<lambda>kc. fst kc = n') df"
    using ne by (induction df) auto
  then show ?thesis
    using ne by (simp add: getitem_def setitem_def)
qed

lemma the_column_setitem_same: "the_column (setitem n vs df) n = vs"
proof (cases "n \<in> set (columns df)")
  case True
  then obtain k where "length (getitem df n) = Suc k"
    using getitem_nonempty [OF True] by (cases "getitem df n") auto
  with True show ?thesis by (simp add: the_column_def getitem_setitem_same)
next
  case False
  then show ?thesis by (simp add: the_column_def getitem_setitem_same)
qed

lemma the_column_setitem_other: "n' \<noteq> n \<Longrightarrow> the_column (setitem n vs df) n' = the_column df n'"
  by (simp add: the_column_def getitem_setitem_other)

lemma getitem_select_rows:
  "getitem (select_rows ks df) n = map (\<lambda>c. boolean_index c ks) (getitem df n)"
  by (induction df) (auto simp: getitem_def select_rows_def)

lemma the_column_select_rows:
  "the_column (select_rows ks df) n = boolean_index (the_column df n) ks"
  by (cases "getitem df n") (simp_all add: the_column_def getitem_select_rows boolean_index_Nil)

lemma the_column_drop_columns:
  "n' \<noteq> n \<Longrightarrow> the_column (drop_columns n df) n' = the_column df n'"
proof -
  assume "n' \<noteq> n"
  then have "filter (\<lambda>kc. fst kc = n') (filter (\<lambda>kc. fst kc \<noteq> n) df) = filter (\<lambda>kc. fst kc = n') df"
    by (induction df) auto
  then show ?thesis by (simp add: the_column_def getitem_def drop_columns_def)
qed

lemma getitem_project:
  "getitem (project ns df) n = concat (map (\<lambda>m. if m = n then getitem df n else []) ns)"
proof -
  have f: "\<And>m. filter (\<lambda>kc. fst kc = n) (filter (\<lambda>kc. fst kc = m) df)
      = (if m = n then filter (\<lambda>kc. fst kc = n) df else [])"
    by (induction df) auto
  show ?thesis
    by (induction ns) (simp_all add: getitem_def project_def f)
qed

lemma concat_map_Nil: "concat (map (\<lambda>x. []) xs) = []"
  by (induction xs) simp_all

lemma the_column_project_in:
  "n \<in> set ns \<Longrightarrow> the_column (project ns df) n = the_column df n"
proof (induction ns)
  case Nil
  then show ?case by simp
next
  case (Cons m ns)
  show ?case
  proof (cases "m = n")
    case True
    then show ?thesis
      by (cases "getitem df n")
         (simp_all add: the_column_def getitem_project concat_map_Nil cong: if_cong)
  next
    case False
    with Cons show ?thesis
      by (simp add: the_column_def getitem_project)
  qed
qed

lemma the_column_absent: "n \<notin> set (columns df) \<Longrightarrow> the_column df n = []"
  by (induction df) (auto simp: the_column_def getitem_def columns_def)

lemma the_column_project_desired:
  "n \<in> set ds \<Longrightarrow>
   the_column (project (filter (\<lambda>c. c \<in> set (columns df)) ds) df) n = the_column df n"
proof (cases "n \<in> set (columns df)")
  case True
  assume "n \<in> set ds"
  with True show ?thesis by (simp add: the_column_project_in)
next
  case False
  then have "getitem (project (filter (\<lambda>c. c \<in> set (columns df)) ds) df) n = []"
    by (induction ds) (auto simp: getitem_project)
  with False show ?thesis by (simp add: the_column_def the_column_absent [unfolded the_column_def])
qed

lemma notna_mask_same:
  "notna_mask (replicate (Suc k) vs) = map (\<lambda>v. \<not> isna v) vs"
proof (induction k)
  case 0
  then show ?case by simp
next
  case (Suc k)
  have z: "map (\<lambda>vb. \<not> isna (fst vb) \<and> snd vb) (zip vs (map (\<lambda>v. \<not> isna v) vs)) = map (\<lambda>v. \<not> isna v) vs"
    by (induction vs) auto
  from Suc show ?case by (simp add: z)
qed

lemma dropna_setitem:
  "dropna n (setitem n vs df) = select_rows (map (\<lambda>v. \<not> isna v) vs) (setitem n vs df)"
proof (cases "n \<in> set (columns df)")
  case True
  then obtain k where "length (getitem df n) = Suc k"
    using getitem_nonempty [OF True] by (cases "getitem df n") auto
  with True show ?thesis
    by (simp add: dropna_def getitem_setitem_same notna_mask_same del: replicate_Suc notna_mask.simps)
next
  case False
  then show ?thesis by (simp add: dropna_def getitem_setitem_same)
qed


section \<open>The classifier and the splitter as one pass\<close>

lemma column_names_distinct:
  "ascii ''Budget_Code'' \<noteq> ascii ''Budget_Account''"
  "ascii ''Budget_Type'' \<noteq> ascii ''Budget_Account''"
  "ascii ''Expense_Code'' \<noteq> ascii ''Budget_Account''"
  "ascii ''Expense_Detail'' \<noteq> ascii ''Budget_Account''"
  "ascii ''Budget_Code'' \<noteq> ascii ''Budget_Type''"
  "ascii ''Budget_Code'' \<noteq> ascii ''Expense_Code''"
  "ascii ''Budget_Code'' \<noteq> ascii ''Expense_Detail''"
  "ascii ''Budget_Type'' \<noteq> ascii ''Expense_Code''"
  "ascii ''Budget_Type'' \<noteq> ascii ''Expense_Detail''"
  "ascii ''Expense_Code'' \<noteq> ascii ''Expense_Detail''"
  by (simp_all add: ascii_def)

lemma derived_in_desired:
  "ascii ''Budget_Code'' \<in> set desired" "ascii ''Budget_Type'' \<in> set desired"
  "ascii ''Expense_Code'' \<in> set desired" "ascii ''Expense_Detail'' \<in> set desired"
  by (simp_all add: desired_def)

text \<open>The four derived columns of the result, from the account column.\<close>

lemma classify_and_split_columns:
  fixes keep df
  defines "acct \<equiv> the_column df (ascii ''Budget_Account'')"
  defines "m0 \<equiv> map (\<lambda>v. str_extract (group_pat keep) 1 (normalize_account v)) acct"
  defines "m1 \<equiv> map (\<lambda>v. str_extract (group_pat keep) 2 (normalize_account v)) acct"
  defines "ig \<equiv> map (\<lambda>x. x \<noteq> None) m0"
  defines "acc \<equiv> map of_string (series_where (map normalize_account acct) (map Not ig))"
  defines "kr \<equiv> map (\<lambda>v. \<not> isna v) acc"
  defines "ba \<equiv> map (\<lambda>v. map_option py_strip (astype_string v)) (boolean_index acc kr)"
  defines "out \<equiv> classify_and_split keep df"
  shows "the_column out (ascii ''Budget_Code'')
           = boolean_index (map of_string (ffill (series_where m0 ig))) kr"
    and "the_column out (ascii ''Budget_Type'')
           = boolean_index (map of_string (ffill (series_where m1 ig))) kr"
    and "the_column out (ascii ''Expense_Code'') = map expense_code ba"
    and "the_column out (ascii ''Expense_Detail'') = map expense_detail ba"
proof -
  define df1 where "df1 = setitem (ascii ''Budget_Code'') (map of_string (ffill (series_where m0 ig))) df"
  define df2 where "df2 = setitem (ascii ''Budget_Type'') (map of_string (ffill (series_where m1 ig))) df1"
  define df3 where "df3 = setitem (ascii ''Budget_Account'') acc df2"
  define df4 where "df4 = select_rows kr df3"
  define df5 where "df5 = setitem (ascii ''Expense_Code'') (map expense_code ba) df4"
  define df6 where "df6 = setitem (ascii ''Expense_Detail'') (map expense_detail ba) df5"
  define df7 where "df7 = drop_columns (ascii ''Budget_Account'') df6"
  have out: "out = project (filter (\<lambda>c. c \<in> set (columns df7)) desired) df7"
    by (simp add: out_def classify_and_split_def Let_def df7_def df6_def df5_def df4_def df3_def
          df2_def df1_def ba_def kr_def acc_def ig_def m0_def m1_def acct_def dropna_setitem
          the_column_select_rows the_column_setitem_same comp_def)
  note ne = column_names_distinct column_names_distinct [symmetric]
  show "the_column out (ascii ''Budget_Code'')
           = boolean_index (map of_string (ffill (series_where m0 ig))) kr"
    unfolding out df7_def df6_def df5_def df4_def df3_def df2_def df1_def
    by (simp add: the_column_project_desired derived_in_desired the_column_drop_columns
          the_column_setitem_other the_column_setitem_same the_column_select_rows ne)
  show "the_column out (ascii ''Budget_Type'')
           = boolean_index (map of_string (ffill (series_where m1 ig))) kr"
    unfolding out df7_def df6_def df5_def df4_def df3_def df2_def df1_def
    by (simp add: the_column_project_desired derived_in_desired the_column_drop_columns
          the_column_setitem_other the_column_setitem_same the_column_select_rows ne)
  show "the_column out (ascii ''Expense_Code'') = map expense_code ba"
    unfolding out df7_def df6_def
    by (simp add: the_column_project_desired derived_in_desired the_column_drop_columns
          the_column_setitem_other ne)
       (simp add: df5_def the_column_setitem_same)
  show "the_column out (ascii ''Expense_Detail'') = map expense_detail ba"
    unfolding out df7_def df6_def
    by (simp add: the_column_project_desired derived_in_desired the_column_drop_columns
          the_column_setitem_same ne)
qed

lemma series_where_map:
  "series_where (map f xs) (map g xs) = map (\<lambda>x. if g x then f x else None) xs"
  by (induction xs) (simp_all add: series_where_Nil series_where_Cons)

lemma isna_of_string: "isna (of_string x) \<longleftrightarrow> x = None"
  by (cases x) (simp_all add: of_string_def)

lemma astype_string_of_string: "astype_string (of_string x) = x"
  by (cases x) (simp_all add: of_string_def astype_string_def)

text \<open>The columns computed one by one give the rows of the single pass.\<close>

lemma colwise_rows:
  "map (\<lambda>(a, b, c, d). \<lparr>Budget_Code = a, Budget_Type = b, Expense_Code = c, Expense_Detail = d\<rparr>)
     (zip (boolean_index
             (map of_string (ffill_from bc
                (map (\<lambda>v. if is_group keep v then str_extract (group_pat keep) 1 (normalize_account v)
                           else None) acct)))
             (map (\<lambda>v. \<not> is_group keep v \<and> normalize_account v \<noteq> None) acct))
       (zip (boolean_index
               (map of_string (ffill_from bt
                  (map (\<lambda>v. if is_group keep v then str_extract (group_pat keep) 2 (normalize_account v)
                             else None) acct)))
               (map (\<lambda>v. \<not> is_group keep v \<and> normalize_account v \<noteq> None) acct))
         (zip (map (\<lambda>v. expense_code (map_option py_strip (normalize_account v)))
                 (filter (\<lambda>v. \<not> is_group keep v \<and> normalize_account v \<noteq> None) acct))
              (map (\<lambda>v. expense_detail (map_option py_strip (normalize_account v)))
                 (filter (\<lambda>v. \<not> is_group keep v \<and> normalize_account v \<noteq> None) acct)))))
   = rows_from keep bc bt acct"
proof (induction acct arbitrary: bc bt)
  case Nil
  then show ?case by (simp add: boolean_index_Nil)
next
  case (Cons v vs)
  show ?case
  proof (cases "is_group keep v")
    case True
    then obtain x where x: "str_extract (group_pat keep) 1 (normalize_account v) = Some x"
      by (auto simp: is_group_def)
    obtain y where y: "str_extract (group_pat keep) 2 (normalize_account v) = Some y"
      using str_extract_group_pat_2 [of keep "normalize_account v"] x by auto
    show ?thesis
      using True x y Cons.IH [of "Some x" "Some y"]
      by (simp add: boolean_index_Cons)
  next
    case False
    then have n: "str_extract (group_pat keep) 1 (normalize_account v) = None"
      by (simp add: is_group_def)
    show ?thesis
    proof (cases "normalize_account v")
      case None
      then show ?thesis
        using False n Cons.IH [of bc bt] by (simp add: boolean_index_Cons)
    next
      case (Some s)
      then show ?thesis
        using False n Cons.IH [of bc bt] by (simp add: boolean_index_Cons)
    qed
  qed
qed

lemma boolean_index_map:
  "boolean_index (map f xs) (map g xs) = map f (filter g xs)"
  by (induction xs) (simp_all add: boolean_index_Nil boolean_index_Cons)

text \<open>
  The rows of the result are those of the single pass over the account column, started
  with no group.
\<close>

lemma derived_rows_classify_and_split:
  "derived_rows (classify_and_split keep df)
     = rows_from keep None None (the_column df (ascii ''Budget_Account''))"
proof -
  let ?acct = "the_column df (ascii ''Budget_Account'')"
  let ?K = "\<lambda>v. \<not> is_group keep v \<and> normalize_account v \<noteq> None"
  have acc: "map of_string (series_where (map normalize_account ?acct)
               (map Not (map (\<lambda>x. x \<noteq> None)
                  (map (\<lambda>v. str_extract (group_pat keep) 1 (normalize_account v)) ?acct))))
             = map (\<lambda>v. of_string (if \<not> is_group keep v then normalize_account v else None)) ?acct"
    unfolding map_map comp_def series_where_map by (simp add: is_group_def)
  have kr: "map (\<lambda>v. \<not> isna v)
              (map (\<lambda>v. of_string (if \<not> is_group keep v then normalize_account v else None)) ?acct)
            = map ?K ?acct"
    by (simp add: isna_of_string)
  have ba: "map (\<lambda>v. map_option py_strip (astype_string v))
              (boolean_index
                 (map (\<lambda>v. of_string (if \<not> is_group keep v then normalize_account v else None)) ?acct)
                 (map ?K ?acct))
            = map (\<lambda>v. map_option py_strip (normalize_account v)) (filter ?K ?acct)"
    by (simp add: boolean_index_map astype_string_of_string cong: map_cong)
  have w0: "series_where (map (\<lambda>v. str_extract (group_pat keep) 1 (normalize_account v)) ?acct)
              (map (\<lambda>x. x \<noteq> None)
                 (map (\<lambda>v. str_extract (group_pat keep) 1 (normalize_account v)) ?acct))
            = map (\<lambda>v. if is_group keep v then str_extract (group_pat keep) 1 (normalize_account v)
                        else None) ?acct"
    unfolding map_map comp_def series_where_map by (simp add: is_group_def)
  have w1: "series_where (map (\<lambda>v. str_extract (group_pat keep) 2 (normalize_account v)) ?acct)
              (map (\<lambda>x. x \<noteq> None)
                 (map (\<lambda>v. str_extract (group_pat keep) 1 (normalize_account v)) ?acct))
            = map (\<lambda>v. if is_group keep v then str_extract (group_pat keep) 2 (normalize_account v)
                        else None) ?acct"
    unfolding map_map comp_def series_where_map by (simp add: is_group_def)
  show ?thesis
    unfolding derived_rows_def classify_and_split_columns acc kr ba w0 w1 ffill_def
    unfolding map_map comp_def
    by (rule colwise_rows)
qed


section \<open>Tokens of the splitter, rows of the pass\<close>

lemma py_split_Nil: "py_split [] = []"
  by (simp add: py_split.simps)

lemma py_split_space_first: "isspace c \<Longrightarrow> py_split (c # cs) = py_split cs"
  by (simp add: py_split.simps [of "c # cs"] py_split.simps [of cs])

lemma py_split_nonspace_first:
  "\<not> isspace c \<Longrightarrow>
   py_split (c # cs) = (c # takeWhile (\<lambda>x. \<not> isspace x) cs) # py_split (dropWhile (\<lambda>x. \<not> isspace x) cs)"
  by (simp add: py_split.simps [of "c # cs"])

lemma py_split_first:
  assumes "s \<noteq> []" "\<not> isspace (hd s)"
  shows "py_split s = takeWhile (\<lambda>x. \<not> isspace x) s # py_split (dropWhile (\<lambda>x. \<not> isspace x) s)"
  using assms by (cases s) (simp_all add: py_split_nonspace_first)

lemma py_split_all_space: "list_all isspace s \<Longrightarrow> py_split s = []"
  by (induction s) (simp_all add: py_split_Nil py_split_space_first)

lemma expense_code_token:
  assumes "py_strip s = s" "s \<noteq> []"
  shows "expense_code (Some s) = Str (takeWhile (\<lambda>x. \<not> isspace x) s)"
    and "takeWhile (\<lambda>x. \<not> isspace x) s \<noteq> []"
proof -
  have h: "\<not> isspace (hd s)"
    using py_strip_ends [of s] assms by simp
  show "expense_code (Some s) = Str (takeWhile (\<lambda>x. \<not> isspace x) s)"
    using py_split_first [OF assms(2) h] by (simp add: expense_code_def str_get0_def of_string_def)
  show "takeWhile (\<lambda>x. \<not> isspace x) s \<noteq> []"
    using assms(2) h by (cases s) simp_all
qed

lemma expense_code_empty: "expense_code (Some []) = NaN"
  by (simp add: expense_code_def str_get0_def of_string_def py_split_Nil)

lemma expense_detail_rest:
  assumes "py_strip s = s"
  shows "expense_detail (Some s) = Str (py_join [0x20] (py_split (dropWhile (\<lambda>x. \<not> isspace x) s)))"
proof (cases "s = []")
  case True
  then show ?thesis by (simp add: expense_detail_def of_string_def py_split_Nil)
next
  case False
  have h: "\<not> isspace (hd s)"
    using py_strip_ends [of s] assms False by simp
  show ?thesis
    using py_split_first [OF False h] by (simp add: expense_detail_def of_string_def)
qed

lemma rows_from_append:
  "rows_from keep bc bt (xs @ ys) =
     rows_from keep bc bt xs
       @ rows_from keep (fst (group_after keep (bc, bt) xs)) (snd (group_after keep (bc, bt) xs)) ys"
  by (induction xs arbitrary: bc bt) (simp_all add: Let_def)

lemma normalize_account_None_iff: "normalize_account v = None \<longleftrightarrow> isna v"
  by (simp add: normalize_account_def astype_string_def)

lemma normalize_account_strip:
  "map_option py_strip (normalize_account v) = normalize_account v"
  by (cases "normalize_account v") (auto dest: normalize_account_stripped)

lemma rows_from_no_group:
  assumes "list_all (\<lambda>v. \<not> is_group keep v) xs"
  shows "rows_from keep bc bt xs =
           map (\<lambda>v. \<lparr>Budget_Code = of_string bc, Budget_Type = of_string bt,
                      Expense_Code = expense_code (normalize_account v),
                      Expense_Detail = expense_detail (normalize_account v)\<rparr>)
             (filter (\<lambda>v. \<not> isna v) xs)"
    and "group_after keep (bc, bt) xs = (bc, bt)"
  using assms
  by (induction xs)
     (auto simp: Let_def is_group_def normalize_account_strip normalize_account_None_iff)


section \<open>The examples\<close>

lemma dropWhile_all: "list_all P xs \<Longrightarrow> dropWhile P xs = []"
  by (induction xs) simp_all

lemmas evals =
  normalize_account_Str py_replace_char_def py_strip_def py_lstrip_def py_rstrip_def
  str_extract_def search_Bol group_pat_def match_at_def code_re_def suffix_re_def tail_re_def
  run_def advance_def group_def ascii_def isspace_def whitespace_points_def isdecimal_def
  decimal_zero_points_def expense_code_def expense_detail_def str_get0_def of_string_def
  py_split_Nil py_split_space_first py_split_nonspace_first Let_def

lemmas sheet_evals =
  example_sheet_def prepare_def extract_year_find probe_def region_def first_year_def
  shape1_def cell_at_def extract_year_from_value_def re_search_def match_at_def rmatch_year_pat
  advance_def header_frame_def drop_labels_def nrows_def setitem_def columns_def rename_def
  RENAME_MAP_def ascii_def py_strip_def py_lstrip_def py_rstrip_def isspace_def
  whitespace_points_def isdecimal_def decimal_zero_points_def

lemma prepare_example_five:
  "prepare (example_sheet (map (\<lambda>s. Str (ascii s))
      [''G501: Group A'', ''511 item one'', ''512 item two'', ''G502: Group B'', ''521 item three'']))
   = Inr [(ascii ''Budget_Account'', map (\<lambda>s. Str (ascii s))
             [''G501: Group A'', ''511 item one'', ''512 item two'', ''G502: Group B'',
              ''521 item three'']),
          (ascii ''Budget'', [Other (ascii ''100''), Other (ascii ''100''), Other (ascii ''100''),
             Other (ascii ''100''), Other (ascii ''100'')]),
          (ascii ''Year'', [Str (ascii ''2025''), Str (ascii ''2025''), Str (ascii ''2025''),
             Str (ascii ''2025''), Str (ascii ''2025'')])]"
  by (simp add: sheet_evals)


section \<open>The header\<close>

lemma drop_labels_empty_iff: "drop_labels ls xs = [] \<longleftrightarrow> (\<forall>i<length xs. i \<in> set ls)"
proof -
  have "drop_labels ls xs = [] \<longleftrightarrow> (\<forall>ix\<in>set (zip [0..<length xs] xs). fst ix \<in> set ls)"
    by (simp add: drop_labels_def filter_empty_conv)
  also have "\<dots> \<longleftrightarrow> (\<forall>i<length xs. i \<in> set ls)"
    by (auto simp: set_zip)
  finally show ?thesis .
qed

lemma drop_labels_1_empty_iff: "drop_labels [1] xs = [] \<longleftrightarrow> xs = []"
  unfolding drop_labels_empty_iff by (cases xs) auto

lemma header_frame_raises_iff: "header_frame raw = Inl IndexError \<longleftrightarrow> length raw \<le> 9"
proof -
  have "header_frame raw = Inl IndexError \<longleftrightarrow> drop_labels [1] (drop_labels [0..<9] raw) = []"
    by (simp add: header_frame_def Let_def split: list.splits)
  also have "\<dots> \<longleftrightarrow> drop_labels [0..<9] raw = []"
    by (rule drop_labels_1_empty_iff)
  also have "\<dots> \<longleftrightarrow> length raw \<le> 9"
    by (auto simp: drop_labels_empty_iff [of "[0..<9]"] not_less [symmetric])
  finally show ?thesis .
qed

lemma header_frame_error: "header_frame raw = Inl e \<Longrightarrow> e = IndexError"
  by (simp add: header_frame_def Let_def split: list.splits)

lemma prepare_error: "prepare raw = Inl e \<Longrightarrow> e = IndexError \<and> length raw \<le> 9"
  using header_frame_raises_iff [of raw]
  by (auto simp: prepare_def extract_year_find Let_def split: sum.splits dest: header_frame_error)

lemma prepare_short: "length raw \<le> 9 \<Longrightarrow> prepare raw = Inl IndexError"
  using header_frame_raises_iff [of raw]
  by (simp add: prepare_def extract_year_find)


section \<open>Further facts about the rows\<close>

lemma prepare_example_one:
  "prepare (example_sheet [Str (ascii ''511 item one'')])
     = Inr [(ascii ''Budget_Account'', [Str (ascii ''511 item one'')]),
            (ascii ''Budget'', [Other (ascii ''100'')]),
            (ascii ''Year'', [Str (ascii ''2025'')])]"
  by (simp add: sheet_evals)

lemma prepare_no_account:
  "prepare [[NaN], [NaN], [NaN], [NaN], [NaN], [NaN], [NaN], [NaN], [NaN],
            [Str (ascii ''Account'')], [NaN], [Str (ascii ''511 item one'')]]
     = Inr [(ascii ''Account'', [Str (ascii ''511 item one'')]), (ascii ''Year'', [Str []])]"
  by (simp add: sheet_evals)

lemma rows_from_expense_codes:
  "map Expense_Code (rows_from keep bc bt xs)
     = map (\<lambda>v. expense_code (normalize_account v))
         (filter (\<lambda>v. \<not> isna v \<and> \<not> is_group keep v) xs)"
  by (induction xs arbitrary: bc bt)
     (auto simp: Let_def is_group_def normalize_account_strip normalize_account_None_iff)

lemma not_isspace_takeWhile: "\<not> list_ex isspace (takeWhile (\<lambda>x. \<not> isspace x) s)"
  by (induction s) simp_all

lemma expense_code_cases:
  assumes "normalize_account v = Some s"
  shows "if s = [] then expense_code (Some s) = NaN
         else \<exists>t. t \<noteq> [] \<and> \<not> list_ex isspace t \<and> expense_code (Some s) = Str t"
proof (cases "s = []")
  case True
  then show ?thesis by (simp add: expense_code_empty)
next
  case False
  have st: "py_strip s = s" using assms by (rule normalize_account_stripped)
  show ?thesis
    using False expense_code_token [OF st False] not_isspace_takeWhile [of s] by auto
qed

lemma prepare_example_blank:
  "prepare (example_sheet [Str (ascii ''   '')])
     = Inr [(ascii ''Budget_Account'', [Str (ascii ''   '')]),
            (ascii ''Budget'', [Other (ascii ''100'')]),
            (ascii ''Year'', [Str (ascii ''2025'')])]"
  by (simp add: sheet_evals)

lemma rows_from_fields:
  "map (\<lambda>r. (Expense_Code r, Expense_Detail r)) (rows_from keep bc bt xs)
     = map (\<lambda>v. (expense_code (normalize_account v), expense_detail (normalize_account v)))
         (filter (\<lambda>v. \<not> isna v \<and> \<not> is_group keep v) xs)"
  by (induction xs arbitrary: bc bt)
     (auto simp: Let_def is_group_def normalize_account_strip normalize_account_None_iff)

lemma prepare_example_code_blank:
  "prepare (example_sheet [Str (ascii ''511''), Str (ascii ''   '')])
     = Inr [(ascii ''Budget_Account'', [Str (ascii ''511''), Str (ascii ''   '')]),
            (ascii ''Budget'', [Other (ascii ''100''), Other (ascii ''100'')]),
            (ascii ''Year'', [Str (ascii ''2025''), Str (ascii ''2025'')])]"
  by (simp add: sheet_evals)

lemma expense_detail_empty: "expense_detail (Some []) = Str []"
  by (simp add: expense_detail_def of_string_def py_split_Nil)



section \<open>A code and a colon without a text\<close>
















section \<open>The year column of the result\<close>

lemma set_boolean_index: "set (boolean_index xs ks) \<subseteq> set xs"
  by (auto simp: boolean_index_def dest: set_zip_leftD)

lemma getitem_rename:
  assumes "n \<notin> set (map fst m)" "n \<notin> set (map snd m)"
  shows "getitem (rename m df) n = getitem df n"
proof -
  have k: "map_of m n = None" using assms(1) by (simp add: map_of_eq_None_iff)
  have v: "\<And>k k'. map_of m k = Some k' \<Longrightarrow> k' \<noteq> n"
  proof -
    fix k k' assume "map_of m k = Some k'"
    then have "(k, k') \<in> set m" by (rule map_of_SomeD)
    then have "k' \<in> set (map snd m)" by force
    with assms(2) show "k' \<noteq> n" by auto
  qed
  have "\<And>k. (case map_of m k of Some k' \<Rightarrow> k' | None \<Rightarrow> k) = n \<longleftrightarrow> k = n"
    using k v by (auto split: option.splits)
  then show ?thesis
    by (induction df) (simp_all add: getitem_def rename_def)
qed

lemma year_not_renamed:
  "ascii ''Year'' \<notin> set (map fst RENAME_MAP)" "ascii ''Year'' \<notin> set (map snd RENAME_MAP)"
  by (simp_all add: RENAME_MAP_def ascii_def)

lemma prepare_year_column:
  assumes "prepare raw = Inr df" "extract_year raw = Inr y"
  shows "list_all (\<lambda>v. v = Str y) (the_column df (ascii ''Year''))"
proof -
  from assms obtain h where h: "header_frame raw = Inr h"
      and df: "df = rename RENAME_MAP (setitem (ascii ''Year'') (replicate (nrows h) (Str y)) h)"
    by (auto simp: prepare_def Let_def split: sum.splits)
  have "the_column df (ascii ''Year'') = replicate (nrows h) (Str y)"
    unfolding df the_column_def getitem_rename [OF year_not_renamed]
    using the_column_setitem_same [of "ascii ''Year''" "replicate (nrows h) (Str y)" h]
    by (simp add: the_column_def)
  then show ?thesis by (simp add: list_all_iff)
qed

lemma year_names_distinct:
  "ascii ''Year'' \<noteq> ascii ''Budget_Code''" "ascii ''Year'' \<noteq> ascii ''Budget_Type''"
  "ascii ''Year'' \<noteq> ascii ''Budget_Account''" "ascii ''Year'' \<noteq> ascii ''Expense_Code''"
  "ascii ''Year'' \<noteq> ascii ''Expense_Detail''" "ascii ''Year'' \<in> set desired"
  by (simp_all add: ascii_def desired_def)

lemma classify_and_split_year:
  "\<exists>ks. the_column (classify_and_split keep df) (ascii ''Year'')
          = boolean_index (the_column df (ascii ''Year'')) ks"
proof -
  have "the_column (classify_and_split keep df) (ascii ''Year'')
      = boolean_index (the_column df (ascii ''Year''))
          (map (\<lambda>v. \<not> isna v)
             (map of_string
                (series_where (map normalize_account (the_column df (ascii ''Budget_Account'')))
                   (map Not (map (\<lambda>x. x \<noteq> None)
                      (map (str_extract (group_pat keep) 1)
                         (map normalize_account (the_column df (ascii ''Budget_Account'')))))))))"
    by (simp add: classify_and_split_def Let_def the_column_project_desired the_column_drop_columns
        the_column_setitem_other dropna_setitem the_column_select_rows year_names_distinct
        comp_def)
  then show ?thesis by blast
qed

lemma convert_budget_year_column:
  assumes "convert_budget raw keep = Inr out" "extract_year raw = Inr y"
  shows "list_all (\<lambda>v. v = Str y) (the_column out (ascii ''Year''))"
proof -
  from assms(1) obtain df where df: "prepare raw = Inr df" and out: "out = classify_and_split keep df"
    by (auto simp: convert_budget_def split: sum.splits if_splits list.splits)
  obtain ks where "the_column out (ascii ''Year'') = boolean_index (the_column df (ascii ''Year'')) ks"
    using classify_and_split_year [of keep df] out by blast
  then show ?thesis
    using prepare_year_column [OF df assms(2)] set_boolean_index [of "the_column df (ascii ''Year'')" ks]
    by (auto simp: list_all_iff)
qed


section \<open>The claims\<close>

subsection \<open>Claim C1\<close>

text \<open>
  Claim C1. For a table whose account column is \<^verbatim>\<open>G501: Group A\<close>, \<^verbatim>\<open>511 item one\<close>,
  \<^verbatim>\<open>512 item two\<close>, \<^verbatim>\<open>G502: Group B\<close>, \<^verbatim>\<open>521 item three\<close>, the classifier and the splitter give
  exactly three rows, in order: (G501, Group A, 511, item one), (G501, Group A, 512, item
  two), (G502, Group B, 521, item three). No group row is in the result, and each row has
  the code and type of the last group row before it. This holds for both values of the
  flag.
\<close>

theorem classifier_example:
  assumes "the_column df (ascii ''Budget_Account'')
             = map (\<lambda>s. Str (ascii s))
                 [''G501: Group A'', ''511 item one'', ''512 item two'', ''G502: Group B'',
                  ''521 item three'']"
  shows "derived_rows (classify_and_split keep df)
           = [\<lparr>Budget_Code = Str (ascii ''G501''), Budget_Type = Str (ascii ''Group A''),
                Expense_Code = Str (ascii ''511''), Expense_Detail = Str (ascii ''item one'')\<rparr>,
              \<lparr>Budget_Code = Str (ascii ''G501''), Budget_Type = Str (ascii ''Group A''),
                Expense_Code = Str (ascii ''512''), Expense_Detail = Str (ascii ''item two'')\<rparr>,
              \<lparr>Budget_Code = Str (ascii ''G502''), Budget_Type = Str (ascii ''Group B''),
                Expense_Code = Str (ascii ''521''), Expense_Detail = Str (ascii ''item three'')\<rparr>]"
  unfolding derived_rows_classify_and_split assms
  by (cases keep) (simp_all add: evals)

theorem classifier_example_witness:
  "\<exists>out. convert_budget (example_sheet (map (\<lambda>s. Str (ascii s))
            [''G501: Group A'', ''511 item one'', ''512 item two'', ''G502: Group B'',
             ''521 item three''])) True = Inr out
     \<and> derived_rows out
           = [\<lparr>Budget_Code = Str (ascii ''G501''), Budget_Type = Str (ascii ''Group A''),
                Expense_Code = Str (ascii ''511''), Expense_Detail = Str (ascii ''item one'')\<rparr>,
              \<lparr>Budget_Code = Str (ascii ''G501''), Budget_Type = Str (ascii ''Group A''),
                Expense_Code = Str (ascii ''512''), Expense_Detail = Str (ascii ''item two'')\<rparr>,
              \<lparr>Budget_Code = Str (ascii ''G502''), Budget_Type = Str (ascii ''Group B''),
                Expense_Code = Str (ascii ''521''), Expense_Detail = Str (ascii ''item three'')\<rparr>]"
proof -
  let ?accts = "map (\<lambda>s. Str (ascii s))
      [''G501: Group A'', ''511 item one'', ''512 item two'', ''G502: Group B'', ''521 item three'']"
  let ?df = "[(ascii ''Budget_Account'', ?accts),
          (ascii ''Budget'', [Other (ascii ''100''), Other (ascii ''100''), Other (ascii ''100''),
             Other (ascii ''100''), Other (ascii ''100'')]),
          (ascii ''Year'', [Str (ascii ''2025''), Str (ascii ''2025''), Str (ascii ''2025''),
             Str (ascii ''2025''), Str (ascii ''2025'')])]"
  have c: "the_column ?df (ascii ''Budget_Account'') = ?accts"
    by (simp add: the_column_def getitem_def)
  have "convert_budget (example_sheet ?accts) True = Inr (classify_and_split True ?df)"
    unfolding convert_budget_def prepare_example_five
    by (simp add: columns_def getitem_def) (simp add: ascii_def)
  then show ?thesis
    using classifier_example [OF c, of True] by simp
qed

subsection \<open>Claim C2\<close>

text \<open>
  Claim C2 says that the code of a group row is any uppercase letter and three digits, so
  that \<^verbatim>\<open>A501: Group X\<close> is a group row. That text reads as the pattern of the claim, but
  neither pattern of the program matches it: both ask for the letter \<^verbatim>\<open>G\<close>.
\<close>

theorem group_marker_letter_counterexample:
  "normalize_account (Str (ascii ''A501: Group X'')) = Some (ascii ''A501: Group X'')
   \<and> spec_marker_text (ascii ''A501: Group X'')
   \<and> \<not> is_group True (Str (ascii ''A501: Group X''))
   \<and> \<not> is_group False (Str (ascii ''A501: Group X''))"
proof -
  have "\<not> marker_text (ascii ''A501: Group X'')"
    using marker_text_G [of "ascii ''A501: Group X''"] by (auto simp: ascii_def)
  then show ?thesis
    by (simp add: normalize_A501 spec_marker_A501 is_group_iff)
qed

text \<open>
  Claim C2, amended. A row is a group row if and only if its normalized account is: the
  letter \<^verbatim>\<open>G\<close> and three digits, an optional suffix (an underscore and one or more characters
  that are neither a colon nor whitespace), a colon that whitespace may surround, and a
  text of one or more characters, none a line break, up to the end. This holds for both
  values of the flag.
\<close>

theorem group_marker_iff_pattern:
  "is_group keep c \<longleftrightarrow> (\<exists>s. normalize_account c = Some s \<and> marker_text s)"
  by (rule is_group_iff)

theorem group_marker_iff_pattern_witness:
  "is_group True (Str (ascii ''G501_1 : Sub A'')) \<and> marker_text (ascii ''G501_1 : Sub A'')"
proof -
  have n: "normalize_account (Str (ascii ''G501_1 : Sub A'')) = Some (ascii ''G501_1 : Sub A'')"
    by (simp add: normalize_account_Str py_replace_char_def py_strip_def py_lstrip_def py_rstrip_def
        ascii_def isspace_def whitespace_points_def)
  have m: "marker_text (ascii ''G501_1 : Sub A'')"
    unfolding marker_text_def
    by (rule pattern_textI [where l = "0x47" and ?d1.0 = "0x35" and ?d2.0 = "0x30" and ?d3.0 = "0x31"
        and suf = "ascii ''_1''" and ?w1.0 = "[0x20]" and ?w2.0 = "[0x20]"
        and lbl = "ascii ''Sub A''"])
       (simp_all add: ascii_def isdecimal_def decimal_zero_points_def isspace_def
          whitespace_points_def suffix_text_def)
  show ?thesis
    using group_marker_iff_pattern [of True "Str (ascii ''G501_1 : Sub A'')"] n m by simp
qed

subsection \<open>Claim C3\<close>

text \<open>
  Claim C3. The conversion raises the labeled error for the missing account column exactly
  for the sheets in which, after the header is set and the columns are renamed, no column
  is named \<^verbatim>\<open>Budget_Account\<close>; it then gives no table. For a sheet that has the column the
  error is not raised.
\<close>

theorem missing_account_column:
  "convert_budget raw keep = Inl (KeyError missing_column_message) \<longleftrightarrow>
     (\<exists>df. prepare raw = Inr df \<and> ascii ''Budget_Account'' \<notin> set (columns df))"
proof (cases "prepare raw")
  case (Inl e)
  then show ?thesis
    using prepare_error [OF Inl] by (simp add: convert_budget_def)
next
  case (Inr df)
  then show ?thesis
    by (auto simp: convert_budget_def split: list.splits)
qed

theorem missing_account_column_witness:
  "convert_budget [[NaN], [NaN], [NaN], [NaN], [NaN], [NaN], [NaN], [NaN], [NaN],
                   [Str (ascii ''Account'')], [NaN], [Str (ascii ''511 item one'')]] True
     = Inl (KeyError missing_column_message)
   \<and> convert_budget (example_sheet [Str (ascii ''511 item one'')]) True
       \<noteq> Inl (KeyError missing_column_message)"
  using missing_account_column [of "[[NaN], [NaN], [NaN], [NaN], [NaN], [NaN], [NaN], [NaN], [NaN],
                   [Str (ascii ''Account'')], [NaN], [Str (ascii ''511 item one'')]]" True]
    missing_account_column [of "example_sheet [Str (ascii ''511 item one'')]" True]
  by (simp add: prepare_example_one prepare_no_account columns_def) (simp add: ascii_def)

subsection \<open>Claim C4\<close>

text \<open>
  Claim C4 says that every row of the result has a non-empty \<^verbatim>\<open>Expense_Code\<close> and that a
  whitespace-only account cell is dropped. A sheet whose only account cell is three spaces
  gives a table of one row, whose \<^verbatim>\<open>Expense_Code\<close> is missing.
\<close>

theorem blank_account_counterexample:
  "convert_budget (example_sheet [Str (ascii ''   '')]) True
     = Inr (classify_and_split True
              [(ascii ''Budget_Account'', [Str (ascii ''   '')]),
               (ascii ''Budget'', [Other (ascii ''100'')]),
               (ascii ''Year'', [Str (ascii ''2025'')])])
   \<and> derived_rows (classify_and_split True
              [(ascii ''Budget_Account'', [Str (ascii ''   '')]),
               (ascii ''Budget'', [Other (ascii ''100'')]),
               (ascii ''Year'', [Str (ascii ''2025'')])])
       = [\<lparr>Budget_Code = NaN, Budget_Type = NaN, Expense_Code = NaN, Expense_Detail = Str []\<rparr>]"
proof -
  let ?df = "[(ascii ''Budget_Account'', [Str (ascii ''   '')]),
               (ascii ''Budget'', [Other (ascii ''100'')]),
               (ascii ''Year'', [Str (ascii ''2025'')])]"
  have a: "convert_budget (example_sheet [Str (ascii ''   '')]) True = Inr (classify_and_split True ?df)"
    unfolding convert_budget_def prepare_example_blank
    by (simp add: columns_def getitem_def) (simp add: ascii_def)
  have c: "the_column ?df (ascii ''Budget_Account'') = [Str (ascii ''   '')]"
    by (simp add: the_column_def getitem_def)
  have b: "derived_rows (classify_and_split True ?df)
       = [\<lparr>Budget_Code = NaN, Budget_Type = NaN, Expense_Code = NaN, Expense_Detail = Str []\<rparr>]"
    unfolding derived_rows_classify_and_split c by (simp add: evals)
  show ?thesis using a b by simp
qed

text \<open>
  Claim C4, amended. The rows of the result are, in order, the rows whose account cell is
  neither missing nor a group row: a row with a missing cell is dropped and raises
  nothing. The \<^verbatim>\<open>Expense_Code\<close> of a row is a non-empty token without whitespace, unless the
  normalized account is the empty string (a whitespace-only cell): that row is kept,
  its \<^verbatim>\<open>Expense_Code\<close> is missing and its \<^verbatim>\<open>Expense_Detail\<close> is empty.
\<close>

theorem expense_code_of_rows:
  "map Expense_Code (derived_rows (classify_and_split keep df))
     = map (\<lambda>v. expense_code (normalize_account v))
         (filter (\<lambda>v. \<not> isna v \<and> \<not> is_group keep v) (the_column df (ascii ''Budget_Account'')))
   \<and> (\<forall>v s. normalize_account v = Some s \<longrightarrow>
         (if s = [] then expense_code (Some s) = NaN \<and> expense_detail (Some s) = Str []
          else \<exists>t. t \<noteq> [] \<and> \<not> list_ex isspace t \<and> expense_code (Some s) = Str t))"
  unfolding derived_rows_classify_and_split
  using expense_code_cases expense_detail_empty by (simp add: rows_from_expense_codes)

theorem expense_code_of_rows_witness:
  "map Expense_Code (derived_rows (classify_and_split True
      [(ascii ''Budget_Account'',
          [Str (ascii ''511 item one''), NaN, Str (ascii ''   ''), Str (ascii ''G501: Group A''),
           Str (ascii ''512'')])]))
     = [Str (ascii ''511''), NaN, Str (ascii ''512'')]"
proof -
  let ?df = "[(ascii ''Budget_Account'',
          [Str (ascii ''511 item one''), NaN, Str (ascii ''   ''), Str (ascii ''G501: Group A''),
           Str (ascii ''512'')])]"
  have c: "the_column ?df (ascii ''Budget_Account'')
      = [Str (ascii ''511 item one''), NaN, Str (ascii ''   ''), Str (ascii ''G501: Group A''),
           Str (ascii ''512'')]"
    by (simp add: the_column_def getitem_def)
  have g: "is_group True (Str (ascii ''G501: Group A''))" "\<not> is_group True (Str (ascii ''511 item one''))"
      "\<not> is_group True (Str (ascii ''   ''))" "\<not> is_group True (Str (ascii ''512''))"
    by (simp_all add: is_group_def evals)
  have e: "expense_code (normalize_account (Str (ascii ''511 item one''))) = Str (ascii ''511'')"
      "expense_code (normalize_account (Str (ascii ''   ''))) = NaN"
      "expense_code (normalize_account (Str (ascii ''512''))) = Str (ascii ''512'')"
    by (simp_all add: evals)
  from expense_code_of_rows [of True ?df] show ?thesis
    unfolding c by (simp add: g e)
qed

subsection \<open>Claim C5\<close>

text \<open>
  Claim C5 says that the year is always empty or a match of \<^verbatim>\<open>(19|20)\d\d\<close>, also when it comes
  from a date whose year is in the range 1900 to 2100. A date of the year 2100 in the
  designated cell gives \<^verbatim>\<open>2100\<close>, which is neither.
\<close>

theorem year_2100_counterexample:
  "extract_year [[NaN], [NaN], [NaN], [NaN], [NaN], [Date 2100 (ascii ''2100-01-01 00:00:00'')]]
     = Inr (ascii ''2100'')
   \<and> ascii ''2100'' \<noteq> [] \<and> \<not> year_token (ascii ''2100'')"
  by (simp add: extract_year_find probe_def shape1_def cell_at_def extract_year_from_value_def
        py_str_int_2100) (simp add: ascii_def)

text \<open>
  Claim C5, amended. For every sheet the year that \<^verbatim>\<open>extract_year\<close> returns, which is the
  value of the \<^verbatim>\<open>Year\<close> column in every row of the result, is empty, or a four-character
  match of \<^verbatim>\<open>(19|20)\d\d\<close>, or \<^verbatim>\<open>2100\<close>; the last only when the sheet holds a date of the year
  2100.
\<close>

theorem year_of_rows:
  "\<exists>y. extract_year raw = Inr y \<and>
       (y = [] \<or> year_token y \<or>
        (y = ascii ''2100'' \<and> (\<exists>row\<in>set raw. \<exists>s. Date 2100 s \<in> set row))) \<and>
       (\<forall>out. convert_budget raw keep = Inr out \<longrightarrow>
          list_all (\<lambda>v. v = Str y) (the_column out (ascii ''Year'')))"
proof -
  obtain y where y: "extract_year raw = Inr y"
    by (simp add: extract_year_find)
  have c: "\<forall>out. convert_budget raw keep = Inr out \<longrightarrow>
          list_all (\<lambda>v. v = Str y) (the_column out (ascii ''Year''))"
    using convert_budget_year_column [OF _ y] by blast
  show ?thesis
  proof (cases "y = []")
    case True
    with y c show ?thesis by blast
  next
    case False
    then obtain row v where r: "row \<in> set raw" "v \<in> set row" and e: "y = extract_year_from_value v"
      using extract_year_origin [OF y] by blast
    have "year_token y \<or> (y = ascii ''2100'' \<and> (\<exists>row\<in>set raw. \<exists>s. Date 2100 s \<in> set row))"
      using False r e extract_year_from_value_cases [of v] by auto
    with y c show ?thesis by blast
  qed
qed

theorem year_of_rows_witness:
  "extract_year (example_sheet (map (\<lambda>s. Str (ascii s))
      [''G501: Group A'', ''511 item one'', ''512 item two'', ''G502: Group B'', ''521 item three'']))
     = Inr (ascii ''2025'')
   \<and> year_token (ascii ''2025'')
   \<and> list_all (\<lambda>v. v = Str (ascii ''2025''))
       (the_column (classify_and_split True
         [(ascii ''Budget_Account'', map (\<lambda>s. Str (ascii s))
             [''G501: Group A'', ''511 item one'', ''512 item two'', ''G502: Group B'',
              ''521 item three'']),
          (ascii ''Budget'', [Other (ascii ''100''), Other (ascii ''100''), Other (ascii ''100''),
             Other (ascii ''100''), Other (ascii ''100'')]),
          (ascii ''Year'', [Str (ascii ''2025''), Str (ascii ''2025''), Str (ascii ''2025''),
             Str (ascii ''2025''), Str (ascii ''2025'')])]) (ascii ''Year''))"
proof -
  let ?accts = "map (\<lambda>s. Str (ascii s))
      [''G501: Group A'', ''511 item one'', ''512 item two'', ''G502: Group B'', ''521 item three'']"
  let ?df = "[(ascii ''Budget_Account'', ?accts),
          (ascii ''Budget'', [Other (ascii ''100''), Other (ascii ''100''), Other (ascii ''100''),
             Other (ascii ''100''), Other (ascii ''100'')]),
          (ascii ''Year'', [Str (ascii ''2025''), Str (ascii ''2025''), Str (ascii ''2025''),
             Str (ascii ''2025''), Str (ascii ''2025'')])]"
  have y: "extract_year (example_sheet ?accts) = Inr (ascii ''2025'')"
    by (simp add: extract_year_find probe_def example_sheet_def shape1_def cell_at_def
          extract_year_from_value_def re_search_def match_at_def rmatch_year_pat advance_def
          ascii_def isdecimal_def decimal_zero_points_def)
  have t: "year_token (ascii ''2025'')"
    by (simp add: ascii_def isdecimal_def decimal_zero_points_def)
  have cb: "convert_budget (example_sheet ?accts) True = Inr (classify_and_split True ?df)"
    unfolding convert_budget_def prepare_example_five
    by (simp add: columns_def getitem_def) (simp add: ascii_def)
  from year_of_rows [of "example_sheet ?accts" True] obtain y' where
    "extract_year (example_sheet ?accts) = Inr y'"
    "\<forall>out. convert_budget (example_sheet ?accts) True = Inr out \<longrightarrow>
          list_all (\<lambda>v. v = Str y') (the_column out (ascii ''Year''))"
    by blast
  then have "list_all (\<lambda>v. v = Str (ascii ''2025'')) (the_column (classify_and_split True ?df) (ascii ''Year''))"
    using y cb by simp
  with y t show ?thesis by simp
qed

subsection \<open>Claim C6\<close>

text \<open>
  Claim C6. For every raw sheet \<^verbatim>\<open>extract_year\<close> returns without raising: the year of the
  cell at row 5, column 0 when that cell yields one; otherwise the first year that a cell
  of the first 25 rows and first 6 columns yields, in row-major order; otherwise the empty
  string.
\<close>

theorem extract_year_probe_then_scan:
  "extract_year raw =
     Inr (if probe raw \<noteq> [] then probe raw else first_year (region raw))"
  by (rule extract_year_find)

theorem extract_year_probe_then_scan_witness:
  "extract_year [[NaN], [NaN], [NaN], [NaN], [NaN], [Str (ascii ''FY 2025'')]] = Inr (ascii ''2025'')
   \<and> extract_year [[NaN, Other (ascii ''7'')], [Str (ascii ''budget 1999''), Str (ascii ''2001'')]]
        = Inr (ascii ''1999'')
   \<and> extract_year [[NaN, Other (ascii ''7'')]] = Inr []"
  using extract_year_probe_then_scan [of "[[NaN], [NaN], [NaN], [NaN], [NaN], [Str (ascii ''FY 2025'')]]"]
    extract_year_probe_then_scan [of "[[NaN, Other (ascii ''7'')], [Str (ascii ''budget 1999''), Str (ascii ''2001'')]]"]
    extract_year_probe_then_scan [of "[[NaN, Other (ascii ''7'')]]"]
  by (simp add: probe_def region_def first_year_def shape1_def cell_at_def
        extract_year_from_value_def re_search_def match_at_def rmatch_year_pat advance_def
        ascii_def isdecimal_def decimal_zero_points_def)

subsection \<open>Claim C7\<close>

text \<open>
  Claim C7 says that a sheet with fewer rows than expected, in particular one shorter than
  9 rows, passes the header step without an exception. The two \<^verbatim>\<open>drop\<close> calls do ignore the
  rows that are not there, but \<^verbatim>\<open>df.iloc[0]\<close> then reads the first row of what is left: the
  header step raises \<^verbatim>\<open>IndexError\<close> exactly when the sheet has at most 9 rows, and the whole
  conversion fails with it. (A sheet of 10 rows or more that lacks the stray row passes.)
\<close>

theorem short_sheet_raises:
  "(header_frame raw = Inl IndexError \<longleftrightarrow> length raw \<le> 9)
   \<and> (length raw \<le> 9 \<longrightarrow> convert_budget raw keep = Inl IndexError)"
  by (simp add: header_frame_raises_iff convert_budget_def prepare_short)

theorem short_sheet_raises_witness:
  "header_frame [[Str (ascii ''Budget report'')], [NaN], [Str (ascii ''FY 2025'')]] = Inl IndexError
   \<and> convert_budget [[Str (ascii ''Budget report'')], [NaN], [Str (ascii ''FY 2025'')]] True
       = Inl IndexError"
  using short_sheet_raises [of "[[Str (ascii ''Budget report'')], [NaN], [Str (ascii ''FY 2025'')]]" True]
  by simp

subsection \<open>Claim C8\<close>

text \<open>
  Claim C8 says that for every surviving, already trimmed account \<^verbatim>\<open>Expense_Code\<close> is the
  text before the first run of whitespace. An account cell of three spaces is trimmed to
  the empty string and survives; the text before its first whitespace is the empty
  string, but its \<^verbatim>\<open>Expense_Code\<close> is missing.
\<close>

theorem empty_account_counterexample:
  "convert_budget (example_sheet [Str (ascii ''511''), Str (ascii ''   '')]) True
     = Inr (classify_and_split True
              [(ascii ''Budget_Account'', [Str (ascii ''511''), Str (ascii ''   '')]),
               (ascii ''Budget'', [Other (ascii ''100''), Other (ascii ''100'')]),
               (ascii ''Year'', [Str (ascii ''2025''), Str (ascii ''2025'')])])
   \<and> derived_rows (classify_and_split True
              [(ascii ''Budget_Account'', [Str (ascii ''511''), Str (ascii ''   '')]),
               (ascii ''Budget'', [Other (ascii ''100''), Other (ascii ''100'')]),
               (ascii ''Year'', [Str (ascii ''2025''), Str (ascii ''2025'')])])
       = [\<lparr>Budget_Code = NaN, Budget_Type = NaN, Expense_Code = Str (ascii ''511''),
            Expense_Detail = Str []\<rparr>,
          \<lparr>Budget_Code = NaN, Budget_Type = NaN, Expense_Code = NaN, Expense_Detail = Str []\<rparr>]
   \<and> normalize_account (Str (ascii ''   '')) = Some []
   \<and> py_strip [] = []
   \<and> spec_expense_code [] = Str []
   \<and> expense_code (Some []) = NaN
   \<and> expense_code (Some []) \<noteq> spec_expense_code []"
proof -
  let ?df = "[(ascii ''Budget_Account'', [Str (ascii ''511''), Str (ascii ''   '')]),
               (ascii ''Budget'', [Other (ascii ''100''), Other (ascii ''100'')]),
               (ascii ''Year'', [Str (ascii ''2025''), Str (ascii ''2025'')])]"
  have a: "convert_budget (example_sheet [Str (ascii ''511''), Str (ascii ''   '')]) True
      = Inr (classify_and_split True ?df)"
    unfolding convert_budget_def prepare_example_code_blank
    by (simp add: columns_def getitem_def) (simp add: ascii_def)
  have c: "the_column ?df (ascii ''Budget_Account'') = [Str (ascii ''511''), Str (ascii ''   '')]"
    by (simp add: the_column_def getitem_def)
  have b: "derived_rows (classify_and_split True ?df)
       = [\<lparr>Budget_Code = NaN, Budget_Type = NaN, Expense_Code = Str (ascii ''511''),
            Expense_Detail = Str []\<rparr>,
          \<lparr>Budget_Code = NaN, Budget_Type = NaN, Expense_Code = NaN, Expense_Detail = Str []\<rparr>]"
    unfolding derived_rows_classify_and_split c by (simp add: evals)
  have n: "normalize_account (Str (ascii ''   '')) = Some []"
    by (simp add: evals)
  have s: "py_strip [] = []"
    by (simp add: py_strip_def py_lstrip_def py_rstrip_def)
  have e: "spec_expense_code [] = Str []"
    by (simp add: spec_expense_code_def)
  show ?thesis using a b n s e by (simp add: expense_code_empty)
qed

text \<open>
  Claim C8, amended. The \<^verbatim>\<open>Expense_Code\<close> and \<^verbatim>\<open>Expense_Detail\<close> of the rows of the result are
  those of the accounts that are neither missing nor group rows, in order, and each such
  account is trimmed. For every trimmed account, \<^verbatim>\<open>Expense_Code\<close> is the text before the
  first run of whitespace, except that it is missing when the account is the empty
  string; \<^verbatim>\<open>Expense_Detail\<close> is the remaining tokens joined by single spaces, the empty
  string when the account has no whitespace.
\<close>

theorem field_splitter_tokens:
  "map (\<lambda>r. (Expense_Code r, Expense_Detail r)) (derived_rows (classify_and_split keep df))
     = map (\<lambda>v. (expense_code (normalize_account v), expense_detail (normalize_account v)))
         (filter (\<lambda>v. \<not> isna v \<and> \<not> is_group keep v) (the_column df (ascii ''Budget_Account'')))
   \<and> (\<forall>v ba. normalize_account v = Some ba \<longrightarrow> py_strip ba = ba)
   \<and> (\<forall>ba. py_strip ba = ba \<longrightarrow>
         expense_code (Some ba) = (if ba = [] then NaN else spec_expense_code ba)
       \<and> expense_detail (Some ba) = spec_expense_detail ba
       \<and> (list_all (\<lambda>c. \<not> isspace c) ba \<longrightarrow> expense_detail (Some ba) = Str []))"
proof -
  have r: "map (\<lambda>r. (Expense_Code r, Expense_Detail r)) (derived_rows (classify_and_split keep df))
     = map (\<lambda>v. (expense_code (normalize_account v), expense_detail (normalize_account v)))
         (filter (\<lambda>v. \<not> isna v \<and> \<not> is_group keep v) (the_column df (ascii ''Budget_Account'')))"
    unfolding derived_rows_classify_and_split by (rule rows_from_fields)
  have n: "\<forall>v ba. normalize_account v = Some ba \<longrightarrow> py_strip ba = ba"
    using normalize_account_stripped by blast
  have t: "expense_code (Some ba) = (if ba = [] then NaN else spec_expense_code ba)
       \<and> expense_detail (Some ba) = spec_expense_detail ba
       \<and> (list_all (\<lambda>c. \<not> isspace c) ba \<longrightarrow> expense_detail (Some ba) = Str [])"
    if "py_strip ba = ba" for ba
    using that expense_code_token(1) [of ba]
    by (simp add: spec_expense_code_def spec_expense_detail_def expense_code_empty
          expense_detail_rest py_split_Nil dropWhile_all)
  from r n t show ?thesis by blast
qed

theorem field_splitter_tokens_witness:
  "map (\<lambda>r. (Expense_Code r, Expense_Detail r)) (derived_rows (classify_and_split True
      [(ascii ''Budget_Account'',
          [Str (ascii ''511 '' @ [0xE04, 0xE48, 0xE32, 0xE43, 0xE0A, 0xE49, 0xE08, 0xE48,
             0xE32, 0xE22, 0xE2D, 0xE37, 0xE48, 0xE19, 0xE46]),
           Str (ascii ''   ''), Str (ascii ''511'')])]))
     = [(Str (ascii ''511''),
         Str [0xE04, 0xE48, 0xE32, 0xE43, 0xE0A, 0xE49, 0xE08, 0xE48, 0xE32, 0xE22, 0xE2D, 0xE37,
              0xE48, 0xE19, 0xE46]),
        (NaN, Str []),
        (Str (ascii ''511''), Str [])]
   \<and> spec_expense_code (ascii ''511 '' @ [0xE04, 0xE48, 0xE32, 0xE43, 0xE0A, 0xE49, 0xE08, 0xE48,
       0xE32, 0xE22, 0xE2D, 0xE37, 0xE48, 0xE19, 0xE46]) = Str (ascii ''511'')
   \<and> spec_expense_detail (ascii ''511 '' @ [0xE04, 0xE48, 0xE32, 0xE43, 0xE0A, 0xE49, 0xE08, 0xE48,
       0xE32, 0xE22, 0xE2D, 0xE37, 0xE48, 0xE19, 0xE46])
       = Str [0xE04, 0xE48, 0xE32, 0xE43, 0xE0A, 0xE49, 0xE08, 0xE48, 0xE32, 0xE22, 0xE2D, 0xE37,
              0xE48, 0xE19, 0xE46]
   \<and> spec_expense_code (ascii ''511'') = Str (ascii ''511'')
   \<and> spec_expense_detail (ascii ''511'') = Str []
   \<and> expense_code (Some []) = NaN
   \<and> expense_detail (Some []) = Str []"
proof -
  let ?a = "ascii ''511 '' @ [0xE04, 0xE48, 0xE32, 0xE43, 0xE0A, 0xE49, 0xE08, 0xE48,
       0xE32, 0xE22, 0xE2D, 0xE37, 0xE48, 0xE19, 0xE46]"
  let ?df = "[(ascii ''Budget_Account'', [Str ?a, Str (ascii ''   ''), Str (ascii ''511'')])]"
  have c: "the_column ?df (ascii ''Budget_Account'') = [Str ?a, Str (ascii ''   ''), Str (ascii ''511'')]"
    by (simp add: the_column_def getitem_def)
  have g: "\<not> is_group True (Str ?a)" "\<not> is_group True (Str (ascii ''   ''))"
      "\<not> is_group True (Str (ascii ''511''))"
    by (simp_all add: is_group_def evals)
  have na: "normalize_account (Str ?a) = Some ?a"
      "normalize_account (Str (ascii ''   '')) = Some []"
      "normalize_account (Str (ascii ''511'')) = Some (ascii ''511'')"
    by (simp_all add: evals)
  have s: "py_strip ?a = ?a" "py_strip (ascii ''511'') = ascii ''511''" "py_strip [] = []"
    by (simp_all add: py_strip_def py_lstrip_def py_rstrip_def ascii_def isspace_def
          whitespace_points_def)
  have v: "spec_expense_code ?a = Str (ascii ''511'')"
      "spec_expense_detail ?a = Str [0xE04, 0xE48, 0xE32, 0xE43, 0xE0A, 0xE49, 0xE08, 0xE48, 0xE32,
          0xE22, 0xE2D, 0xE37, 0xE48, 0xE19, 0xE46]"
      "spec_expense_code (ascii ''511'') = Str (ascii ''511'')"
      "spec_expense_detail (ascii ''511'') = Str []"
      "spec_expense_detail [] = Str []"
    by (simp_all add: spec_expense_code_def spec_expense_detail_def ascii_def isspace_def
          whitespace_points_def py_split_Nil py_split_nonspace_first py_split_space_first)
  from field_splitter_tokens [of True ?df]
  have r: "map (\<lambda>r. (Expense_Code r, Expense_Detail r)) (derived_rows (classify_and_split True ?df))
     = map (\<lambda>v. (expense_code (normalize_account v), expense_detail (normalize_account v)))
         (filter (\<lambda>v. \<not> isna v \<and> \<not> is_group True v) (the_column ?df (ascii ''Budget_Account'')))"
    and t: "\<And>ba. py_strip ba = ba \<Longrightarrow>
         expense_code (Some ba) = (if ba = [] then NaN else spec_expense_code ba)
       \<and> expense_detail (Some ba) = spec_expense_detail ba"
    by blast+
  have ta: "expense_code (Some ?a) = Str (ascii ''511'')"
      "expense_detail (Some ?a) = Str [0xE04, 0xE48, 0xE32, 0xE43, 0xE0A, 0xE49, 0xE08, 0xE48, 0xE32,
          0xE22, 0xE2D, 0xE37, 0xE48, 0xE19, 0xE46]"
    using t [OF s(1)] v(1,2) by (simp_all add: ascii_def)
  have tb: "expense_code (Some (ascii ''511'')) = Str (ascii ''511'')"
      "expense_detail (Some (ascii ''511'')) = Str []"
    using t [OF s(2)] v(3,4) by (simp_all add: ascii_def)
  have tc: "expense_code (Some []) = NaN" "expense_detail (Some []) = Str []"
    using t [OF s(3)] v(5) by simp_all
  have rows: "map (\<lambda>r. (Expense_Code r, Expense_Detail r)) (derived_rows (classify_and_split True ?df))
     = [(Str (ascii ''511''),
         Str [0xE04, 0xE48, 0xE32, 0xE43, 0xE0A, 0xE49, 0xE08, 0xE48, 0xE32, 0xE22, 0xE2D, 0xE37,
              0xE48, 0xE19, 0xE46]),
        (NaN, Str []),
        (Str (ascii ''511''), Str [])]"
    unfolding r c by (simp add: g na ta tb tc)
  show ?thesis
    using rows v(1-4) tc by simp
qed

subsection \<open>Claim C9\<close>

text \<open>
  Claim C9. Every row with an account that stands before the first group row is kept in
  the result, in order, with a missing \<^verbatim>\<open>Budget_Code\<close> and a missing \<^verbatim>\<open>Budget_Type\<close>; the rows
  from the first group row on follow.
\<close>

theorem rows_before_first_group:
  assumes "the_column df (ascii ''Budget_Account'') = pre @ post"
    and "list_all (\<lambda>v. \<not> is_group keep v) pre"
  shows "derived_rows (classify_and_split keep df)
           = map (\<lambda>v. \<lparr>Budget_Code = NaN, Budget_Type = NaN,
                        Expense_Code = expense_code (normalize_account v),
                        Expense_Detail = expense_detail (normalize_account v)\<rparr>)
               (filter (\<lambda>v. \<not> isna v) pre)
             @ rows_from keep None None post"
  unfolding derived_rows_classify_and_split assms(1) rows_from_append
  by (simp add: rows_from_no_group [OF assms(2)] of_string_def)

theorem rows_before_first_group_witness:
  "derived_rows (classify_and_split True
      [(ascii ''Budget_Account'',
          [Str (ascii ''511 item one''), NaN, Str (ascii ''512 item two''),
           Str (ascii ''G501: Group A''), Str (ascii ''513 x'')])])
     = [\<lparr>Budget_Code = NaN, Budget_Type = NaN,
          Expense_Code = Str (ascii ''511''), Expense_Detail = Str (ascii ''item one'')\<rparr>,
        \<lparr>Budget_Code = NaN, Budget_Type = NaN,
          Expense_Code = Str (ascii ''512''), Expense_Detail = Str (ascii ''item two'')\<rparr>,
        \<lparr>Budget_Code = Str (ascii ''G501''), Budget_Type = Str (ascii ''Group A''),
          Expense_Code = Str (ascii ''513''), Expense_Detail = Str (ascii ''x'')\<rparr>]"
proof -
  let ?pre = "[Str (ascii ''511 item one''), NaN, Str (ascii ''512 item two'')]"
  let ?post = "[Str (ascii ''G501: Group A''), Str (ascii ''513 x'')]"
  let ?df = "[(ascii ''Budget_Account'',
          [Str (ascii ''511 item one''), NaN, Str (ascii ''512 item two''),
           Str (ascii ''G501: Group A''), Str (ascii ''513 x'')])]"
  have c: "the_column ?df (ascii ''Budget_Account'') = ?pre @ ?post"
    by (simp add: the_column_def getitem_def)
  have g: "list_all (\<lambda>v. \<not> is_group True v) ?pre"
    by (simp add: is_group_def normalize_account_def astype_string_def evals)
  have p: "rows_from True None None ?post
      = [\<lparr>Budget_Code = Str (ascii ''G501''), Budget_Type = Str (ascii ''Group A''),
          Expense_Code = Str (ascii ''513''), Expense_Detail = Str (ascii ''x'')\<rparr>]"
    by (simp add: evals)
  have e: "expense_code (normalize_account (Str (ascii ''511 item one''))) = Str (ascii ''511'')"
      "expense_detail (normalize_account (Str (ascii ''511 item one''))) = Str (ascii ''item one'')"
      "expense_code (normalize_account (Str (ascii ''512 item two''))) = Str (ascii ''512'')"
      "expense_detail (normalize_account (Str (ascii ''512 item two''))) = Str (ascii ''item two'')"
    by (simp_all add: evals)
  from rows_before_first_group [OF c g] show ?thesis
    unfolding p by (simp add: e)
qed

subsection \<open>Claim C10\<close>



end
